theory Spec2Isabelle
  imports Complex_Main
begin

section \<open>The CAMB theory wrapper of cobaya: state cache, requirements, spectra\<close>

text \<open>
  The module \<^verbatim>\<open>cobaya/theories/camb/camb.py\<close> wraps the CAMB Boltzmann code. The class
  \<^verbatim>\<open>camb\<close> keeps three result slots (\<^verbatim>\<open>self.states\<close>), reuses a slot when the same
  parameter values are asked for again, and otherwise overwrites the oldest slot.
  The embedding below follows the Python line by line. Python's mutation of \<^verbatim>\<open>self\<close>
  is explicit state passing, and since a raised exception leaves every mutation made so
  far in place, each stateful function returns the state it leaves behind together
  with its outcome.
\<close>

subsection \<open>Python values\<close>

text \<open>
  Parameter values are numbers or \<^verbatim>\<open>None\<close> (the module itself stores \<^verbatim>\<open>None\<close> under
  \<^verbatim>\<open>"H0"\<close>). Python floats are idealised as real numbers: rounding is outside the model.
  A dictionary is a map; Python's \<^verbatim>\<open>==\<close> on dictionaries is equality of maps.
\<close>

datatype pyval = PyNone | PyNum real

type_synonym pydict = "string \<rightharpoonup> pyval"

text \<open>
  The exceptions that can leave the module. \<open>CAMBError\<close> stands for whatever the
  external engine raises; the other constructors are the Python exceptions of the same
  name.
\<close>

datatype error =
    HandledException
  | CAMBError string
  | TypeError
  | ValueError
  | AttributeError
  | IndexError

text \<open>Python 2 orders \<^verbatim>\<open>None\<close> below every number.\<close>

fun py_gt :: "pyval \<Rightarrow> pyval \<Rightarrow> bool" where
  "py_gt PyNone b = False"
| "py_gt (PyNum x) PyNone = True"
| "py_gt (PyNum x) (PyNum y) = (y < x)"

text \<open>\<^verbatim>\<open>max(a, b)\<close> on two arguments keeps the first unless the second is greater.\<close>

definition py_max2 :: "pyval \<Rightarrow> pyval \<Rightarrow> pyval" where
  "py_max2 a b = (if py_gt b a then b else a)"

text \<open>\<^verbatim>\<open>max(xs)\<close> and \<^verbatim>\<open>min(xs)\<close> on a list raise \<^verbatim>\<open>ValueError\<close> when it is empty.\<close>

fun py_max :: "int list \<Rightarrow> error + int" where
  "py_max [] = Inl ValueError"
| "py_max (x # xs) = Inr (fold max xs x)"

fun py_min :: "int list \<Rightarrow> error + int" where
  "py_min [] = Inl ValueError"
| "py_min (x # xs) = Inr (fold min xs x)"

text \<open>\<^verbatim>\<open>xs.index(v)\<close>: the position of the first element equal to \<open>v\<close>.\<close>

fun first_index :: "('a \<Rightarrow> bool) \<Rightarrow> 'a list \<Rightarrow> nat option" where
  "first_index P [] = None"
| "first_index P (x # xs) =
     (if P x then Some 0 else map_option Suc (first_index P xs))"

definition py_index :: "'a list \<Rightarrow> 'a \<Rightarrow> error + nat" where
  "py_index xs v =
     (case first_index (\<lambda>x. x = v) xs of None \<Rightarrow> Inl ValueError | Some i \<Rightarrow> Inr i)"

text \<open>\<^verbatim>\<open>dict(pairs)\<close>: later pairs overwrite earlier ones.\<close>

definition py_dict :: "(string \<times> pyval) list \<Rightarrow> pydict" where
  "py_dict kvs = fold (\<lambda>(k, v) m. m(k \<mapsto> v)) kvs Map.empty"

subsection \<open>Arrays and the object store\<close>

text \<open>
  A two-dimensional numpy array is the list of its rows. Arrays are objects: the slot
  holds a reference to the array the engine returned, \<^verbatim>\<open>deepcopy\<close> makes a new object, and
  a column slice \<^verbatim>\<open>a[:,c]\<close> is a view that writes through to the array it was taken from.
  The store is a list of arrays and a reference is an index into it.
\<close>

type_synonym array2 = "real list list"

record view =
  base :: nat
  col :: nat

definition read_view :: "array2 list \<Rightarrow> view \<Rightarrow> real list" where
  "read_view h v = map (\<lambda>row. row ! col v) (h ! base v)"

subsection \<open>The external engine\<close>

text \<open>
  The CAMB Python interface, as far as the module uses it: \<^verbatim>\<open>camb.set_params(**args)\<close>,
  \<^verbatim>\<open>camb.get_results(params)\<close>, \<^verbatim>\<open>results.get_cmb_power_spectra(params)\<close> (of the
  dictionary it returns the module reads the entry \<^verbatim>\<open>"total"\<close> only, so the model keeps
  that array), attribute access on the parameter object for derived parameters, and its
  attribute \<^verbatim>\<open>TCMB\<close>. Each call either returns or raises.
\<close>

record ('cp, 'cr) engine =
  set_params :: "pydict \<Rightarrow> error + 'cp"
  get_results :: "'cp \<Rightarrow> error + 'cr"
  get_cmb_power_spectra :: "'cr \<Rightarrow> 'cp \<Rightarrow> error + array2"
  getattr :: "'cp \<Rightarrow> string \<Rightarrow> error + pyval"
  TCMB :: "'cp \<Rightarrow> real"

subsection \<open>The component's state\<close>

text \<open>
  One entry of \<^verbatim>\<open>self.states\<close>. The key \<^verbatim>\<open>"last"\<close> is the recency stamp; Python integers
  are unbounded.
\<close>

record ('cp, 'cr) slot =
  CAMBparams :: "'cp option"
  CAMBresults :: "'cr option"
  powers :: "nat option"
  params :: "pydict option"
  derived :: "pyval list option"
  last_py :: int

text \<open>
  The attributes of \<^verbatim>\<open>self\<close> that the module reads or writes, and the object store.
  \<open>calls_set_params\<close> and \<open>calls_get_results\<close> are not in the source: they count
  the calls made to the engine, so that "the engine is not called" can be stated.
  \<^verbatim>\<open>self.n_states\<close> is the length of \<^verbatim>\<open>self.states\<close>.
\<close>

record ('cp, 'cr) state =
  states :: "('cp, 'cr) slot list"
  fixed :: pydict
  precision :: pydict
  self_derived :: "string list"
  sampled_params :: "string list"
  heap :: "array2 list"
  calls_set_params :: nat
  calls_get_results :: nat

definition n_states :: "('cp, 'cr) state \<Rightarrow> nat" where
  "n_states s = length (states s)"

definition empty_slot :: "('cp, 'cr) slot" where
  "empty_slot = \<lparr>CAMBparams = None, CAMBresults = None, powers = None,
                 params = None, derived = None, last_py = 0\<rparr>"

subsection \<open>initialise\<close>

text \<open>
  What the host framework and the file system supply to \<^verbatim>\<open>initialise\<close>: the attributes
  set by the \<^verbatim>\<open>Theory\<close> base class, whether a folder exists, and whether
  \<^verbatim>\<open>import camb\<close> succeeds.
\<close>

record config =
  path :: "string option"
  cfg_fixed :: pydict
  cfg_sampled :: "string list"
  cfg_precision :: pydict
  cfg_derived :: "string list"
  path_exists :: "string \<Rightarrow> bool"
  import_ok :: bool

definition path_join :: "string \<Rightarrow> string \<Rightarrow> string" where
  "path_join a b = (if a \<noteq> [] \<and> last a = CHR ''/'' then a @ b else a @ ''/'' @ b)"

definition initialise :: "config \<Rightarrow> error + ('cp, 'cr) state" where
  "initialise c =
     (let given = (case path c of None \<Rightarrow> False | Some p \<Rightarrow> p \<noteq> [])
      in if given \<and> \<not> path_exists c (the (path c)) then Inl HandledException
         else if given \<and> \<not> path_exists c (path_join (the (path c)) ''pycamb'')
           then Inl HandledException
         else if \<not> import_ok c then Inl HandledException
         else if (''H0'' \<in> set (cfg_sampled c) \<and> ''cosmomc_theta'' \<in> set (cfg_sampled c))
               \<or> (''H0'' \<in> dom (cfg_fixed c) \<and> ''cosmomc_theta'' \<in> dom (cfg_fixed c))
           then Inl HandledException
         else Inr \<lparr>states = replicate 3 empty_slot,
                   fixed = (if ''cosmomc_theta'' \<in> dom (cfg_fixed c)
                               \<or> ''cosmomc_theta'' \<in> set (cfg_sampled c)
                            then (cfg_fixed c)(''H0'' \<mapsto> PyNone) else cfg_fixed c),
                   precision = cfg_precision c,
                   self_derived = cfg_derived c,
                   sampled_params = cfg_sampled c,
                   heap = [],
                   calls_set_params = 0,
                   calls_get_results = 0\<rparr>)"

subsection \<open>current\_state\<close>

definition lasts_of :: "('cp, 'cr) state \<Rightarrow> int list" where
  "lasts_of s = map last_py (states s)"

definition current_index :: "('cp, 'cr) state \<Rightarrow> error + nat" where
  "current_index s =
     (case py_max (lasts_of s) of
        Inl e \<Rightarrow> Inl e
      | Inr m \<Rightarrow> py_index (lasts_of s) m)"

definition current_state :: "('cp, 'cr) state \<Rightarrow> error + ('cp, 'cr) slot" where
  "current_state s =
     (case current_index s of Inl e \<Rightarrow> Inl e | Inr i \<Rightarrow> Inr (states s ! i))"

subsection \<open>set\<close>

text \<open>
  \<^verbatim>\<open>args = self.fixed\<close> binds the dictionary itself, so the two \<^verbatim>\<open>update\<close> calls change
  \<^verbatim>\<open>self.fixed\<close>. The slot's \<^verbatim>\<open>"params"\<close> is assigned before the engine is called.
\<close>

definition set_py ::
  "('cp, 'cr) engine \<Rightarrow> pydict \<Rightarrow> nat \<Rightarrow> ('cp, 'cr) state \<Rightarrow> error option \<times> ('cp, 'cr) state"
where
  "set_py eng params_values_dict i_state s =
     (let args = (fixed s ++ params_values_dict) ++ precision s;
          s1 = s\<lparr>fixed := args,
                 states := (states s)[i_state := (states s ! i_state)\<lparr>params := Some params_values_dict\<rparr>],
                 calls_set_params := calls_set_params s + 1\<rparr>
      in case set_params eng args of
           Inl e \<Rightarrow> (Some e, s1)
         | Inr cp \<Rightarrow>
             (None, s1\<lparr>states := (states s1)[i_state := (states s1 ! i_state)\<lparr>CAMBparams := Some cp\<rparr>]\<rparr>))"

subsection \<open>get\_derived\<close>

text \<open>
  The loop of \<^verbatim>\<open>get_derived\<close> over \<^verbatim>\<open>self.derived\<close>. The dictionary \<open>d\<close> is the caller's and
  is filled as the loop goes; \<^verbatim>\<open>getattr(None, p)\<close> raises \<^verbatim>\<open>AttributeError\<close>.
\<close>

fun get_derived_loop ::
  "('cp, 'cr) engine \<Rightarrow> 'cp option \<Rightarrow> string list \<Rightarrow> pydict \<Rightarrow> error option \<times> pydict"
where
  "get_derived_loop eng cpo [] d = (None, d)"
| "get_derived_loop eng cpo (p # ps) d =
     (case cpo of
        None \<Rightarrow> (Some AttributeError, d)
      | Some cp \<Rightarrow>
          (case getattr eng cp p of
             Inl e \<Rightarrow> (Some e, d)
           | Inr v \<Rightarrow>
               if v = PyNone then (Some HandledException, d(p \<mapsto> v))
               else get_derived_loop eng cpo ps (d(p \<mapsto> v))))"

definition get_derived ::
  "('cp, 'cr) engine \<Rightarrow> pydict \<Rightarrow> nat \<Rightarrow> ('cp, 'cr) state \<Rightarrow> error option \<times> pydict"
where
  "get_derived eng d i_state s =
     get_derived_loop eng (CAMBparams (states s ! i_state)) (self_derived s) d"

subsection \<open>compute\<close>

text \<open>
  The last three lines of \<^verbatim>\<open>compute\<close>: every stamp is lowered by the maximum taken at
  the start of the call, and the slot just used gets stamp 1.
\<close>

definition make_current :: "int \<Rightarrow> nat \<Rightarrow> ('cp, 'cr) state \<Rightarrow> ('cp, 'cr) state" where
  "make_current m i_state s =
     (let sts = map (\<lambda>sl. sl\<lparr>last_py := last_py sl - m\<rparr>) (states s)
      in s\<lparr>states := sts[i_state := (sts ! i_state)\<lparr>last_py := 1\<rparr>]\<rparr>)"

text \<open>
  The \<^verbatim>\<open>except StopIteration\<close> branch up to and including the derived parameters, for
  the slot \<open>i_state\<close> chosen by the caller. The result is the exception raised (if any),
  the caller's \<^verbatim>\<open>derived\<close> dictionary and the state. \<open>calls_get_results\<close> counts the call
  of \<^verbatim>\<open>get_results\<close>. Two branches cannot be taken and are there to keep the function
  total: after \<^verbatim>\<open>set\<close> has returned, the slot's \<^verbatim>\<open>"CAMBparams"\<close> is not \<^verbatim>\<open>None\<close>, and after
  \<^verbatim>\<open>get_derived\<close> has returned, every name of \<^verbatim>\<open>self.derived\<close> is a key of \<^verbatim>\<open>derived\<close>.
\<close>

definition compute_miss ::
  "('cp, 'cr) engine \<Rightarrow> pydict option \<Rightarrow> pydict \<Rightarrow> nat \<Rightarrow> ('cp, 'cr) state
     \<Rightarrow> error option \<times> pydict option \<times> ('cp, 'cr) state"
where
  "compute_miss eng dv p i_state s =
     (case set_py eng p i_state s of
        (Some e, s1) \<Rightarrow> (Some e, dv, s1)
      | (None, s1) \<Rightarrow>
          let s2 = s1\<lparr>calls_get_results := calls_get_results s1 + 1\<rparr> in
          (case CAMBparams (states s2 ! i_state) of
             None \<Rightarrow> (Some TypeError, dv, s2)
           | Some cp \<Rightarrow>
          (case get_results eng cp of
             Inl e \<Rightarrow> (Some e, dv, s2)
           | Inr cr \<Rightarrow>
               let s3 = s2\<lparr>states := (states s2)[i_state := (states s2 ! i_state)\<lparr>CAMBresults := Some cr\<rparr>]\<rparr> in
               (case get_cmb_power_spectra eng cr cp of
                  Inl e \<Rightarrow> (Some e, dv, s3)
                | Inr arr \<Rightarrow>
                    let s4 = s3\<lparr>heap := heap s3 @ [arr],
                                states := (states s3)[i_state := (states s3 ! i_state)\<lparr>powers := Some (length (heap s3))\<rparr>]\<rparr> in
                    if dv = Some Map.empty then
                      (case get_derived eng Map.empty i_state s4 of
                         (Some e, d') \<Rightarrow> (Some e, Some d', s4)
                       | (None, d') \<Rightarrow>
                           (None, Some d',
                            s4\<lparr>states := (states s4)[i_state := (states s4 ! i_state)
                                   \<lparr>derived := Some (map (\<lambda>n. case d' n of Some v \<Rightarrow> v | None \<Rightarrow> PyNone) (self_derived s4))\<rparr>]\<rparr>))
                    else (None, dv, s4)))))"

text \<open>
  \<^verbatim>\<open>compute(derived, **params_values_dict)\<close>. \<open>dv\<close> is the argument \<^verbatim>\<open>derived\<close>: \<open>None\<close>
  for Python's \<^verbatim>\<open>None\<close>, otherwise the dictionary passed in; the second component of the
  result is that dictionary after the call. The test \<^verbatim>\<open>derived == {}\<close> holds for an empty
  dictionary only. Zipping with a \<^verbatim>\<open>"derived"\<close> entry that is still \<^verbatim>\<open>None\<close> raises
  \<^verbatim>\<open>TypeError\<close>; \<^verbatim>\<open>min\<close> of an empty list raises \<^verbatim>\<open>ValueError\<close>. On a miss the slot's
  \<^verbatim>\<open>"derived"\<close> entry is rewritten only when derived parameters are asked for.
\<close>

definition compute ::
  "('cp, 'cr) engine \<Rightarrow> pydict option \<Rightarrow> pydict \<Rightarrow> ('cp, 'cr) state
     \<Rightarrow> error option \<times> pydict option \<times> ('cp, 'cr) state"
where
  "compute eng dv p s =
     (let lasts = lasts_of s in
      case first_index (\<lambda>sl. params sl = Some p) (states s) of
        Some i_state \<Rightarrow>
          (if dv = Some Map.empty then
             (case derived (states s ! i_state) of
                None \<Rightarrow> (Some TypeError, dv, s)
              | Some vs \<Rightarrow>
                  (case py_max lasts of
                     Inl e \<Rightarrow> (Some e, Some (py_dict (zip (self_derived s) vs)), s)
                   | Inr m \<Rightarrow>
                       (None, Some (py_dict (zip (self_derived s) vs)), make_current m i_state s)))
           else
             (case py_max lasts of
                Inl e \<Rightarrow> (Some e, dv, s)
              | Inr m \<Rightarrow> (None, dv, make_current m i_state s)))
      | None \<Rightarrow>
          (case py_min lasts of
             Inl e \<Rightarrow> (Some e, dv, s)
           | Inr mn \<Rightarrow>
               (case py_index lasts mn of
                  Inl e \<Rightarrow> (Some e, dv, s)
                | Inr i_state \<Rightarrow>
                    (case compute_miss eng dv p i_state s of
                       (Some e, dv', s') \<Rightarrow> (Some e, dv', s')
                     | (None, dv', s') \<Rightarrow>
                         (case py_max lasts of
                            Inl e \<Rightarrow> (Some e, dv', s')
                          | Inr m \<Rightarrow> (None, dv', make_current m i_state s'))))))"

subsection \<open>needs\<close>

text \<open>
  \<^verbatim>\<open>needs(arguments)\<close>; the list is \<^verbatim>\<open>arguments.items()\<close> in iteration order. An unknown
  key raises after the earlier items have been applied.
\<close>

fun needs :: "(string \<times> pyval) list \<Rightarrow> ('cp, 'cr) state \<Rightarrow> error option \<times> ('cp, 'cr) state" where
  "needs [] s = (None, s)"
| "needs ((k, v) # kvs) s =
     (if k = ''l_max'' then
        needs kvs (s\<lparr>fixed := (fixed s)(''lmax'' \<mapsto>
           py_max2 v (case fixed s ''lmax'' of None \<Rightarrow> PyNum 0 | Some w \<Rightarrow> w))\<rparr>)
      else if k = ''Cl'' then needs kvs s
      else (Some HandledException, s))"

subsection \<open>get\_cl\<close>

text \<open>
  \<^verbatim>\<open>ell*(ell+1)/(2*np.pi)\<close> at one multipole (true division is in force).
\<close>

definition ell_factor :: "nat \<Rightarrow> real" where
  "ell_factor l = real l * (real l + 1) / (2 * pi)"

text \<open>
  \<^verbatim>\<open>x[2:] = x[2:] / ell_factor[2:] * (T*1.e6)**2\<close> on column \<open>c\<close> of an array: the rows
  from 2 on are rescaled, rows 0 and 1 are not touched.
\<close>

definition scale_column :: "real \<Rightarrow> nat \<Rightarrow> array2 \<Rightarrow> array2" where
  "scale_column T c a =
     map (\<lambda>(l, row). if 2 \<le> l then row[c := row ! c / ell_factor l * (T * 1000000)\<^sup>2] else row)
         (enumerate 0 a)"

text \<open>The same assignment made through a view: it changes the array the view is based on.\<close>

definition scale_view :: "real \<Rightarrow> view \<Rightarrow> array2 list \<Rightarrow> array2 list" where
  "scale_view T v h = h[base v := scale_column T (col v) (h ! base v)]"

text \<open>The dictionary \<^verbatim>\<open>cl\<close> that \<^verbatim>\<open>get_cl\<close> returns: the multipoles and four column views.\<close>

record cl =
  ell :: "nat list"
  tt :: view
  te :: view
  ee :: view
  bb :: view

text \<open>
  \<^verbatim>\<open>get_cl()\<close>. \<^verbatim>\<open>deepcopy\<close> puts a new array into the store and the four views are taken
  from that copy. Subscripting \<^verbatim>\<open>None\<close> raises \<^verbatim>\<open>TypeError\<close>, a column index beyond the
  array's width raises \<^verbatim>\<open>IndexError\<close>, and \<^verbatim>\<open>None.TCMB\<close> raises \<^verbatim>\<open>AttributeError\<close>. The
  loop over the keys of \<^verbatim>\<open>cl\<close> visits the four channels in the dictionary's order; they
  are four different columns, and the model takes them in the order written.
\<close>

definition get_cl ::
  "('cp, 'cr) engine \<Rightarrow> ('cp, 'cr) state \<Rightarrow> (error + cl) \<times> ('cp, 'cr) state"
where
  "get_cl eng s =
     (case current_state s of
        Inl e \<Rightarrow> (Inl e, s)
      | Inr cur \<Rightarrow>
          (case powers cur of
             None \<Rightarrow> (Inl TypeError, s)
           | Some a \<Rightarrow>
               let cl_camb = length (heap s);
                   s1 = s\<lparr>heap := heap s @ [heap s ! a]\<rparr>;
                   c = \<lparr>ell = [0..<length (heap s ! a)],
                        tt = \<lparr>base = cl_camb, col = 0\<rparr>,
                        te = \<lparr>base = cl_camb, col = 3\<rparr>,
                        ee = \<lparr>base = cl_camb, col = 1\<rparr>,
                        bb = \<lparr>base = cl_camb, col = 2\<rparr>\<rparr>
               in if \<exists>row \<in> set (heap s ! a). length row < 4 then (Inl IndexError, s1)
                  else
                    (case CAMBparams cur of
                       None \<Rightarrow> (Inl AttributeError, s1)
                     | Some cp \<Rightarrow>
                         (Inr c,
                          s1\<lparr>heap := fold (scale_view (TCMB eng cp)) [tt c, te c, ee c, bb c] (heap s1)\<rparr>))))"

text \<open>Calling \<^verbatim>\<open>get_cl\<close> \<open>n\<close> times in a row, whatever each call returns.\<close>

fun get_cl_times :: "nat \<Rightarrow> ('cp, 'cr) engine \<Rightarrow> ('cp, 'cr) state \<Rightarrow> ('cp, 'cr) state" where
  "get_cl_times 0 eng s = s"
| "get_cl_times (Suc n) eng s = get_cl_times n eng (snd (get_cl eng s))"

subsection \<open>Sequences of calls\<close>

text \<open>
  A run of \<^verbatim>\<open>compute\<close> calls, each with its \<^verbatim>\<open>derived\<close> argument and its parameter values.
  An exception ends the run, as it ends the sampler.
\<close>

fun compute_seq ::
  "('cp, 'cr) engine \<Rightarrow> (pydict option \<times> pydict) list \<Rightarrow> ('cp, 'cr) state
     \<Rightarrow> error option \<times> ('cp, 'cr) state"
where
  "compute_seq eng [] s = (None, s)"
| "compute_seq eng ((dv, p) # rs) s =
     (case compute eng dv p s of
        (Some e, dv', s') \<Rightarrow> (Some e, s')
      | (None, dv', s') \<Rightarrow> compute_seq eng rs s')"

text \<open>
  The states the component can be in: the one \<^verbatim>\<open>initialise\<close> builds, and any state left
  by a call of \<^verbatim>\<open>compute\<close>, \<^verbatim>\<open>needs\<close> or \<^verbatim>\<open>get_cl\<close>, whether it returned or raised.
\<close>

inductive reachable :: "('cp, 'cr) state \<Rightarrow> bool" where
  init: "initialise c = Inr s \<Longrightarrow> reachable s"
| after_compute: "reachable s \<Longrightarrow> compute eng dv p s = (r, dv', s') \<Longrightarrow> reachable s'"
| after_needs: "reachable s \<Longrightarrow> needs kvs s = (r, s') \<Longrightarrow> reachable s'"
| after_get_cl: "reachable s \<Longrightarrow> get_cl eng s = (rc, s') \<Longrightarrow> reachable s'"

subsection \<open>Notions used to state the properties\<close>

text \<open>
  The aggregated multipole limit: the number stored under \<^verbatim>\<open>"lmax"\<close> in \<^verbatim>\<open>self.fixed\<close>, and 0
  when nothing is stored, as \<^verbatim>\<open>self.fixed.get("lmax", 0)\<close> reads it.
\<close>

definition stored_lmax :: "('cp, 'cr) state \<Rightarrow> real" where
  "stored_lmax s = (case fixed s ''lmax'' of Some (PyNum x) \<Rightarrow> x | _ \<Rightarrow> 0)"

text \<open>Two different positions of a list of stamps hold the same stamp only at its minimum.\<close>

definition ties_only_at_min :: "int list \<Rightarrow> bool" where
  "ties_only_at_min ls =
     (\<forall>i < length ls. \<forall>j < length ls.
        i \<noteq> j \<and> ls ! i = ls ! j \<longrightarrow> (\<forall>k < length ls. ls ! i \<le> ls ! k))"

text \<open>
  The conversion to squared microkelvin in the words of the specification:
  \<^verbatim>\<open>c / (ell*(ell+1)/(2*PI)) * (T_kelvin * 1e6)^2\<close>.
\<close>

definition physical :: "real \<Rightarrow> nat \<Rightarrow> real \<Rightarrow> real" where
  "physical T l c = c / (real l * (real l + 1) / (2 * pi)) * (T * 1000000)\<^sup>2"

text \<open>The four column assignments of \<^verbatim>\<open>get_cl\<close> on one array, in the order they are made.\<close>

definition scaled :: "real \<Rightarrow> array2 \<Rightarrow> array2" where
  "scaled T a = scale_column T 2 (scale_column T 1 (scale_column T 3 (scale_column T 0 a)))"

text \<open>
  A slot is populated for the values \<open>p\<close>: its key is \<open>p\<close>, its parameter object is what
  \<^verbatim>\<open>set_params\<close> returned for arguments made of some dictionary updated with \<open>p\<close> and then
  with the precision settings, its results object is what \<^verbatim>\<open>get_results\<close> returned for that
  parameter object, and its spectra are an array of the store that is what
  \<^verbatim>\<open>get_cmb_power_spectra\<close> returned for the two.
\<close>

definition computed_for ::
  "('cp, 'cr) engine \<Rightarrow> ('cp, 'cr) state \<Rightarrow> pydict \<Rightarrow> ('cp, 'cr) slot \<Rightarrow> bool"
where
  "computed_for eng s p sl =
     (params sl = Some p
      \<and> (\<exists>f cp cr a.
            set_params eng ((f ++ p) ++ precision s) = Inr cp \<and> CAMBparams sl = Some cp
          \<and> get_results eng cp = Inr cr \<and> CAMBresults sl = Some cr
          \<and> powers sl = Some a \<and> a < length (heap s)
          \<and> get_cmb_power_spectra eng cr cp = Inr (heap s ! a)))"

text \<open>Every array reference held by a slot points into the store.\<close>

definition refs_ok :: "('cp, 'cr) state \<Rightarrow> bool" where
  "refs_ok s =
     (\<forall>j < length (states s). \<forall>a. powers (states s ! j) = Some a \<longrightarrow> a < length (heap s))"

subsection \<open>Fixtures for the concrete checks\<close>

text \<open>
  A configuration without a path, with one sampled parameter \<open>x\<close> that is also asked
  for as a derived parameter, the state \<^verbatim>\<open>initialise\<close> builds from it, and an engine that
  accepts everything: its parameter object is the argument dictionary, its results object
  remembers the parameters it was computed for, its spectra have three multipoles, and a
  derived parameter is looked up among the arguments.
\<close>

definition cfg0 :: config where
  "cfg0 = \<lparr>path = None, cfg_fixed = Map.empty, cfg_sampled = [''x''],
           cfg_precision = Map.empty, cfg_derived = [''x''], path_exists = (\<lambda>_. False),
           import_ok = True\<rparr>"

definition st0 :: "(pydict, pydict) state" where
  "st0 = \<lparr>states = [empty_slot, empty_slot, empty_slot], fixed = Map.empty,
          precision = Map.empty, self_derived = [''x''], sampled_params = [''x''], heap = [],
          calls_set_params = 0, calls_get_results = 0\<rparr>"

definition raw0 :: array2 where
  "raw0 = [[5, 6, 7, 8], [9, 10, 11, 12], [1, 2, 3, 4]]"

definition eng0 :: "(pydict, pydict) engine" where
  "eng0 = \<lparr>set_params = (\<lambda>args. Inr args),
           get_results = (\<lambda>cp. Inr cp),
           get_cmb_power_spectra = (\<lambda>cr cp. Inr raw0),
           getattr = (\<lambda>cp n. Inr (case cp n of None \<Rightarrow> PyNone | Some v \<Rightarrow> v)),
           TCMB = (\<lambda>cp. 27255 / 10000)\<rparr>"

text \<open>The same engine, except that the computation phase fails when \<open>x\<close> is 4.\<close>

definition eng_fail :: "(pydict, pydict) engine" where
  "eng_fail = eng0\<lparr>get_results :=
     (\<lambda>cp. if cp ''x'' = Some (PyNum 4) then Inl (CAMBError ''get_results'') else Inr cp)\<rparr>"

definition pA :: pydict where "pA = [''x'' \<mapsto> PyNum 1]"
definition pB :: pydict where "pB = [''x'' \<mapsto> PyNum 2]"
definition pC :: pydict where "pC = [''x'' \<mapsto> PyNum 3]"
definition pD :: pydict where "pD = [''x'' \<mapsto> PyNum 4]"

text \<open>The fresh state with a precision setting that has the name of the sampled parameter.\<close>

definition st_prec :: "(pydict, pydict) state" where
  "st_prec = st0\<lparr>precision := [''x'' \<mapsto> PyNum 9]\<rparr>"


text \<open>Four calls with four different values.\<close>

definition run_ABCD :: "(pydict option \<times> pydict) list" where
  "run_ABCD = [(None, pA), (None, pB), (None, pC), (None, pD)]"

text \<open>
  The cache filled by three calls, and the state left by a fourth call whose computation
  fails.
\<close>

definition st_full :: "(pydict, pydict) state" where
  "st_full = snd (compute_seq eng_fail [(None, pA), (None, pB), (None, pC)] st0)"

definition st_failed :: "(pydict, pydict) state" where
  "st_failed = snd (snd (compute eng_fail None pD st_full))"

text \<open>
  Three calls that ask for derived parameters and a fourth that does not, and the state
  they leave.
\<close>

definition run_ABCd :: "(pydict option \<times> pydict) list" where
  "run_ABCd = [(Some Map.empty, pA), (Some Map.empty, pB), (Some Map.empty, pC), (None, pD)]"

definition st_stale :: "(pydict, pydict) state" where
  "st_stale = snd (compute_seq eng0 run_ABCd st0)"

text \<open>The state after one successful call, and what \<^verbatim>\<open>get_cl\<close> returns there.\<close>

definition st1 :: "(pydict, pydict) state" where
  "st1 = snd (snd (compute eng0 None pA st0))"

definition cl1 :: cl where
  "cl1 = \<lparr>ell = [0, 1, 2], tt = \<lparr>base = 1, col = 0\<rparr>, te = \<lparr>base = 1, col = 3\<rparr>,
           ee = \<lparr>base = 1, col = 1\<rparr>, bb = \<lparr>base = 1, col = 2\<rparr>\<rparr>"

section \<open>Properties\<close>

subsection \<open>Searching and extrema\<close>

lemma first_index_None_iff: "first_index P xs = None \<longleftrightarrow> (\<forall>x \<in> set xs. \<not> P x)"
  by (induction xs) auto

lemma first_index_Some:
  "first_index P xs = Some i \<Longrightarrow> i < length xs \<and> P (xs ! i) \<and> (\<forall>j < i. \<not> P (xs ! j))"
proof (induction xs arbitrary: i)
  case Nil
  then show ?case by simp
next
  case (Cons x xs)
  show ?case
  proof (cases "P x")
    case True
    with Cons.prems show ?thesis by simp
  next
    case False
    with Cons.prems obtain k where k: "first_index P xs = Some k" "i = Suc k"
      by auto
    from Cons.IH [OF k(1)] False k(2) show ?thesis
      by (auto simp: nth_Cons split: nat.splits)
  qed
qed

lemma first_index_map: "first_index P (map f xs) = first_index (\<lambda>x. P (f x)) xs"
  by (induction xs) auto

lemma first_index_cong:
  "(\<And>x. x \<in> set xs \<Longrightarrow> P x = Q x) \<Longrightarrow> first_index P xs = first_index Q xs"
  by (induction xs) auto

lemma py_max_Inr: "py_max xs = Inr m \<Longrightarrow> m \<in> set xs \<and> (\<forall>x \<in> set xs. x \<le> m)"
proof (cases xs)
  case Nil
  assume "py_max xs = Inr m"
  with Nil show ?thesis by simp
next
  case (Cons y ys)
  assume "py_max xs = Inr m"
  with Cons have "m = Max (set (y # ys))"
    using Max.set_eq_fold [of y ys] by simp
  with Cons show ?thesis
    by (metis List.finite_set Max_ge Max_in list.distinct(1) set_empty)
qed

lemma py_min_Inr: "py_min xs = Inr m \<Longrightarrow> m \<in> set xs \<and> (\<forall>x \<in> set xs. m \<le> x)"
proof (cases xs)
  case Nil
  assume "py_min xs = Inr m"
  with Nil show ?thesis by simp
next
  case (Cons y ys)
  assume "py_min xs = Inr m"
  with Cons have "m = Min (set (y # ys))"
    using Min.set_eq_fold [of y ys] by simp
  with Cons show ?thesis
    by (metis List.finite_set Min_le Min_in list.distinct(1) set_empty)
qed

lemma py_max_ex: "xs \<noteq> [] \<Longrightarrow> \<exists>m. py_max xs = Inr m"
  by (cases xs) auto

lemma py_index_Inr:
  "py_index xs v = Inr i \<Longrightarrow> i < length xs \<and> xs ! i = v \<and> (\<forall>j < i. xs ! j \<noteq> v)"
  unfolding py_index_def
  by (auto split: option.splits dest: first_index_Some)

lemma py_index_mem: "v \<in> set xs \<Longrightarrow> \<exists>i. py_index xs v = Inr i"
  unfolding py_index_def
  by (auto split: option.splits simp: first_index_None_iff)

subsection \<open>What one call changes\<close>


lemma map_update_keep:
  "(i < length xs \<Longrightarrow> v = f (xs ! i)) \<Longrightarrow> (map f xs)[i := v] = map f xs"
  by (cases "i < length xs") (simp_all add: list_update_same_conv list_update_beyond)

lemma length_make_current [simp]: "length (states (make_current m i s)) = length (states s)"
  by (simp add: make_current_def Let_def)

lemma lasts_of_make_current:
  "lasts_of (make_current m i s) = (map (\<lambda>x. x - m) (lasts_of s))[i := 1]"
  by (cases "i < length (states s)")
     (simp_all add: make_current_def lasts_of_def Let_def map_update comp_def)

lemma make_current_fields [simp]:
  "fixed (make_current m i s) = fixed s"
  "precision (make_current m i s) = precision s"
  "self_derived (make_current m i s) = self_derived s"
  "sampled_params (make_current m i s) = sampled_params s"
  "heap (make_current m i s) = heap s"
  "calls_set_params (make_current m i s) = calls_set_params s"
  "calls_get_results (make_current m i s) = calls_get_results s"
  by (simp_all add: make_current_def Let_def)

lemma set_py_effect:
  assumes "set_py eng p i s = (r, s1)"
  shows "lasts_of s1 = lasts_of s"
    and "length (states s1) = length (states s)"
    and "i < length (states s) \<Longrightarrow> params (states s1 ! i) = Some p"
    and "j \<noteq> i \<Longrightarrow> states s1 ! j = states s ! j"
    and "fixed s1 = (fixed s ++ p) ++ precision s"
    and "precision s1 = precision s"
    and "self_derived s1 = self_derived s"
    and "sampled_params s1 = sampled_params s"
    and "heap s1 = heap s"
    and "calls_set_params s1 = calls_set_params s + 1"
    and "calls_get_results s1 = calls_get_results s"
    and "r = None \<Longrightarrow> i < length (states s) \<Longrightarrow> CAMBparams (states s1 ! i) \<noteq> None"
  using assms
  by (auto simp: set_py_def Let_def lasts_of_def map_update map_update_keep
           split: sum.splits)


lemma compute_miss_effect:
  assumes "compute_miss eng dv p i s = (r, dv', s1)"
  shows "lasts_of s1 = lasts_of s"
    and "length (states s1) = length (states s)"
    and "i < length (states s) \<Longrightarrow> params (states s1 ! i) = Some p"
    and "j \<noteq> i \<Longrightarrow> states s1 ! j = states s ! j"
    and "fixed s1 = (fixed s ++ p) ++ precision s"
    and "precision s1 = precision s"
    and "self_derived s1 = self_derived s"
    and "sampled_params s1 = sampled_params s"
    and "take (length (heap s)) (heap s1) = heap s"
    and "calls_set_params s1 = calls_set_params s + 1"
    and "r = None \<Longrightarrow> calls_get_results s1 = calls_get_results s + 1"
  using assms
  by (auto simp: compute_miss_def set_py_def get_derived_def Let_def lasts_of_def map_update
        map_update_keep split: sum.splits option.splits prod.splits if_splits)


lemma py_max_Inl: "py_max xs = Inl e \<Longrightarrow> xs = []"
  by (cases xs) auto

lemma compute_None_cases:
  assumes "compute eng dv p s = (None, dv', s')"
  obtains
    (hit) i m where
      "first_index (\<lambda>sl. params sl = Some p) (states s) = Some i"
      "py_max (lasts_of s) = Inr m"
      "s' = make_current m i s"
      "dv = Some Map.empty \<Longrightarrow>
         \<exists>vs. derived (states s ! i) = Some vs \<and> dv' = Some (py_dict (zip (self_derived s) vs))"
      "dv \<noteq> Some Map.empty \<Longrightarrow> dv' = dv"
  | (miss) i m mn s1 where
      "first_index (\<lambda>sl. params sl = Some p) (states s) = None"
      "py_min (lasts_of s) = Inr mn"
      "py_index (lasts_of s) mn = Inr i"
      "compute_miss eng dv p i s = (None, dv', s1)"
      "py_max (lasts_of s) = Inr m"
      "s' = make_current m i s1"
  using assms
  by (auto simp: compute_def Let_def split: option.splits sum.splits if_splits prod.splits)

lemma compute_cases:
  assumes "compute eng dv p s = (r, dv', s')"
  obtains
    (same) "s' = s"
  | (hit) i m where
      "first_index (\<lambda>sl. params sl = Some p) (states s) = Some i"
      "py_max (lasts_of s) = Inr m"
      "s' = make_current m i s" "r = None"
  | (failed) i mn e where
      "first_index (\<lambda>sl. params sl = Some p) (states s) = None"
      "py_min (lasts_of s) = Inr mn"
      "py_index (lasts_of s) mn = Inr i"
      "compute_miss eng dv p i s = (Some e, dv', s')" "r = Some e"
  | (miss) i m mn s1 where
      "first_index (\<lambda>sl. params sl = Some p) (states s) = None"
      "py_min (lasts_of s) = Inr mn"
      "py_index (lasts_of s) mn = Inr i"
      "compute_miss eng dv p i s = (None, dv', s1)"
      "py_max (lasts_of s) = Inr m"
      "s' = make_current m i s1" "r = None"
  using assms
  by (auto simp: compute_def Let_def dest!: py_max_Inl
           split: option.splits sum.splits if_splits prod.splits)


lemma make_current_nth:
  assumes "j < length (states s)"
  shows "params (states (make_current m i s) ! j) = params (states s ! j)"
    and "CAMBparams (states (make_current m i s) ! j) = CAMBparams (states s ! j)"
    and "CAMBresults (states (make_current m i s) ! j) = CAMBresults (states s ! j)"
    and "powers (states (make_current m i s) ! j) = powers (states s ! j)"
    and "derived (states (make_current m i s) ! j) = derived (states s ! j)"
    and "last_py (states (make_current m i s) ! j) = (if j = i then 1 else last_py (states s ! j) - m)"
  using assms
  by (cases "i < length (states s)";
      simp add: make_current_def Let_def nth_list_update list_update_beyond)+

lemma params_make_current:
  "map params (states (make_current m i s)) = map params (states s)"
  by (rule nth_equalityI) (simp_all add: make_current_nth)

lemma current_index_make_current:
  assumes m: "py_max (lasts_of s) = Inr m" and i: "i < length (states s)"
  shows "current_index (make_current m i s) = Inr i"
proof -
  let ?ls = "lasts_of (make_current m i s)"
  have len: "length ?ls = length (states s)"
    by (simp add: lasts_of_def)
  have nth: "?ls ! j = (if j = i then 1 else lasts_of s ! j - m)" if "j < length (states s)" for j
    using that by (simp add: lasts_of_def make_current_nth)
  have le: "lasts_of s ! j \<le> m" if "j < length (states s)" for j
    using py_max_Inr [OF m] that by (simp add: lasts_of_def)
  from i len have ne: "?ls \<noteq> []" by auto
  then obtain m' where m': "py_max ?ls = Inr m'"
    using py_max_ex by blast
  have one_in: "1 \<in> set ?ls"
    using nth [OF i] i len by (metis in_set_conv_nth)
  have "x \<le> 1" if "x \<in> set ?ls" for x
  proof -
    from that obtain j where j: "j < length ?ls" "?ls ! j = x"
      by (auto simp: in_set_conv_nth)
    with len nth [of j] le [of j] show ?thesis
      by (auto split: if_splits)
  qed
  with py_max_Inr [OF m'] one_in have "m' = 1"
    by (meson order_antisym)
  from py_index_mem [OF one_in] obtain k where k: "py_index ?ls 1 = Inr k"
    by blast
  from py_index_Inr [OF k] have kk: "k < length ?ls" "?ls ! k = 1"
    by auto
  have "k = i"
  proof (rule ccontr)
    assume "k \<noteq> i"
    with kk len nth [of k] le [of k] show False by auto
  qed
  with k m' \<open>m' = 1\<close> show ?thesis
    by (simp add: current_index_def)
qed



subsection \<open>The fixtures\<close>

lemmas unfold_calls = compute_def compute_miss_def set_py_def get_derived_def lasts_of_def
  py_index_def Let_def make_current_def current_state_def current_index_def

lemmas unfold_fixtures = st0_def empty_slot_def eng0_def


lemma initialise_cfg0: "(initialise cfg0 :: error + (pydict, pydict) state) = Inr st0"
  by (simp add: initialise_def cfg0_def st0_def numeral_3_eq_3)

lemma current_st0: "current_index st0 = Inr 0" "current_state st0 = Inr empty_slot"
  by (simp_all add: unfold_calls unfold_fixtures)

subsection \<open>The current slot\<close>




text \<open>
  C4, as the code has it. Right after \<^verbatim>\<open>initialise\<close>, before any computation,
  \<^verbatim>\<open>current_state\<close> raises nothing: all stamps are 0, the first index of the maximum is 0,
  and the slot returned is slot 0, which is still empty.
\<close>

theorem current_state_before_compute:
  assumes "initialise c = Inr s"
  shows "current_index s = Inr 0 \<and> current_state s = Inr empty_slot"
  using assms
  by (auto simp: initialise_def Let_def unfold_calls numeral_3_eq_3 empty_slot_def
           split: if_splits)

theorem current_state_before_compute_witness:
  "(initialise cfg0 :: error + (pydict, pydict) state) = Inr st0
   \<and> current_index st0 = Inr 0 \<and> current_state st0 = Inr empty_slot"
  using current_state_before_compute [OF initialise_cfg0] initialise_cfg0 by simp

text \<open>
  The claim as stated ("fails with EmptyCache, returns no slot") is false on the fresh
  state: the call returns.
\<close>

theorem current_state_before_compute_counterexample:
  "(initialise cfg0 :: error + (pydict, pydict) state) = Inr st0 \<and> \<not> isl (current_state st0)"
  by (simp add: initialise_cfg0 current_st0)

subsection \<open>Requirements\<close>

lemma py_max2_num: "py_max2 (PyNum v) (PyNum w) = PyNum (max w v)"
  by (simp add: py_max2_def max_def)

lemma needs_l_max_step:
  assumes "fixed s ''lmax'' \<noteq> Some PyNone"
  shows "needs [(''l_max'', PyNum v)] s
           = (None, s\<lparr>fixed := (fixed s)(''lmax'' \<mapsto> PyNum (max (stored_lmax s) v))\<rparr>)"
  using assms
  by (cases "fixed s ''lmax''"; cases "the (fixed s ''lmax'')")
     (auto simp: stored_lmax_def py_max2_num)

lemma needs_states [simp]: "states (snd (needs kvs s)) = states s"
  by (induction kvs s rule: needs.induct) auto

lemma needs_monotone:
  assumes "fixed s ''lmax'' \<noteq> Some PyNone" and "\<forall>kv \<in> set kvs. snd kv \<noteq> PyNone"
  shows "fixed (snd (needs kvs s)) ''lmax'' \<noteq> Some PyNone
         \<and> stored_lmax s \<le> stored_lmax (snd (needs kvs s))"
  using assms
proof (induction kvs s rule: needs.induct)
  case (1 s)
  then show ?case by simp
next
  case (2 k v kvs s)
  show ?case
  proof (cases "k = ''l_max''")
    case True
    from "2.prems" obtain x where v: "v = PyNum x"
      by (cases v) auto
    let ?s1 = "s\<lparr>fixed := (fixed s)(''lmax'' \<mapsto> PyNum (max (stored_lmax s) x))\<rparr>"
    have s1: "s\<lparr>fixed := (fixed s)(''lmax'' \<mapsto>
           py_max2 v (case fixed s ''lmax'' of None \<Rightarrow> PyNum 0 | Some w \<Rightarrow> w))\<rparr> = ?s1"
      using needs_l_max_step [OF "2.prems"(1), of x] v by simp
    have "fixed ?s1 ''lmax'' \<noteq> Some PyNone" by simp
    moreover have "stored_lmax s \<le> stored_lmax ?s1"
      by (simp add: stored_lmax_def)
    ultimately show ?thesis
      using "2.IH"(1) [OF True] "2.prems"(2) True s1 by fastforce
  next
    case False
    then show ?thesis
      using "2.IH"(2) "2.prems" by auto
  qed
qed

text \<open>
  C8. Announcing \<^verbatim>\<open>{"l_max": v}\<close> returns normally and stores under \<^verbatim>\<open>"lmax"\<close> the maximum of
  \<open>v\<close> and the value stored before (0 when there was none); the stored value never
  goes down, whatever list of numeric requirements is announced, even one that raises;
  and 500 followed by 200 leaves 500. The hypothesis excludes a \<^verbatim>\<open>None\<close> stored under
  \<^verbatim>\<open>"lmax"\<close> by the configuration, which is not a stored value.
\<close>

theorem needs_l_max_is_max:
  assumes "fixed s ''lmax'' \<noteq> Some PyNone"
  shows "needs [(''l_max'', PyNum v)] s
           = (None, s\<lparr>fixed := (fixed s)(''lmax'' \<mapsto> PyNum (max (stored_lmax s) v))\<rparr>)
       \<and> stored_lmax (snd (needs [(''l_max'', PyNum v)] s)) = max (stored_lmax s) v
       \<and> (\<forall>kvs. (\<forall>kv \<in> set kvs. snd kv \<noteq> PyNone)
              \<longrightarrow> stored_lmax s \<le> stored_lmax (snd (needs kvs s)))
       \<and> (stored_lmax s \<le> 500 \<longrightarrow>
            stored_lmax (snd (needs [(''l_max'', PyNum 200)]
                           (snd (needs [(''l_max'', PyNum 500)] s)))) = 500)"
proof -
  note step = needs_l_max_step [OF assms]
  have a: "stored_lmax (snd (needs [(''l_max'', PyNum v)] s)) = max (stored_lmax s) v" for v
    unfolding step snd_conv by (simp add: stored_lmax_def)
  let ?s1 = "snd (needs [(''l_max'', PyNum 500)] s)"
  have "fixed ?s1 ''lmax'' \<noteq> Some PyNone"
    unfolding step snd_conv by simp
  from needs_l_max_step [OF this, of 200]
  have b: "stored_lmax (snd (needs [(''l_max'', PyNum 200)] ?s1)) = max (stored_lmax ?s1) 200"
    unfolding snd_conv by (simp add: stored_lmax_def del: needs.simps)
  show ?thesis
    using step [of v] a [of v] a [of 500] b needs_monotone [OF assms]
    by (auto simp del: needs.simps)
qed

theorem needs_l_max_is_max_witness:
  "fixed st0 ''lmax'' \<noteq> Some PyNone
   \<and> stored_lmax (snd (needs [(''l_max'', PyNum 500)] st0)) = 500
   \<and> stored_lmax (snd (needs [(''l_max'', PyNum 200)]
                           (snd (needs [(''l_max'', PyNum 500)] st0)))) = 500"
proof -
  have h: "fixed st0 ''lmax'' \<noteq> Some PyNone"
    by (simp add: st0_def)
  have z: "stored_lmax st0 = 0"
    by (simp add: stored_lmax_def st0_def)
  from needs_l_max_is_max [OF h, of 500]
  have "stored_lmax (snd (needs [(''l_max'', PyNum 500)] st0)) = max (stored_lmax st0) 500"
    and "stored_lmax st0 \<le> 500 \<longrightarrow>
            stored_lmax (snd (needs [(''l_max'', PyNum 200)]
                           (snd (needs [(''l_max'', PyNum 500)] st0)))) = 500"
    by blast+
  with h z show ?thesis
    by (simp del: needs.simps)
qed

subsection \<open>Recency stamps\<close>

lemma ties_make_current:
  assumes m: "py_max (lasts_of s) = Inr m"
    and t: "ties_only_at_min (lasts_of s)"
  shows "ties_only_at_min (lasts_of (make_current m i s))"
proof (cases "i < length (states s)")
  case False
  then have "lasts_of (make_current m i s) = map (\<lambda>x. x - m) (lasts_of s)"
    using lasts_of_make_current [of m i s] by (simp add: list_update_beyond lasts_of_def)
  with t show ?thesis
    by (simp add: ties_only_at_min_def)
next
  case True
  let ?ls = "lasts_of s" and ?ls' = "lasts_of (make_current m i s)"
  have len: "length ?ls' = length ?ls" "length ?ls = length (states s)"
    by (simp_all add: lasts_of_def)
  have nth: "?ls' ! j = (if j = i then 1 else ?ls ! j - m)" if "j < length ?ls" for j
    using that by (simp add: lasts_of_def make_current_nth)
  have le: "?ls ! j \<le> m" if "j < length ?ls" for j
    using py_max_Inr [OF m] that by simp
  show ?thesis
    unfolding ties_only_at_min_def
  proof (intro allI impI)
    fix a b k
    assume a: "a < length ?ls'" and b: "b < length ?ls'"
      and ab: "a \<noteq> b \<and> ?ls' ! a = ?ls' ! b" and k: "k < length ?ls'"
    have "a \<noteq> i"
      using ab a b len nth [of a] nth [of b] le [of b] by (auto split: if_splits)
    moreover have "b \<noteq> i"
      using ab a b len nth [of a] nth [of b] le [of a] by (auto split: if_splits)
    ultimately have eq: "?ls ! a = ?ls ! b"
      using ab a b len nth [of a] nth [of b] by simp
    with t a b ab len have "?ls ! a \<le> ?ls ! k"
      using k by (auto simp: ties_only_at_min_def)
    then show "?ls' ! a \<le> ?ls' ! k"
      using \<open>a \<noteq> i\<close> a k len nth [of a] nth [of k] le [of a] by (auto split: if_splits)
  qed
qed

lemma get_cl_states [simp]: "states (snd (get_cl eng s)) = states s"
  by (simp add: get_cl_def Let_def split: sum.splits option.splits)

lemma compute_ties:
  assumes "compute eng dv p s = (r, dv', s')" and "ties_only_at_min (lasts_of s)"
  shows "ties_only_at_min (lasts_of s')"
  using assms(1)
proof (cases rule: compute_cases)
  case same
  with assms(2) show ?thesis by simp
next
  case (hit i m)
  with assms(2) show ?thesis by (simp add: ties_make_current)
next
  case (failed i mn e)
  from compute_miss_effect(1) [OF failed(4)] assms(2) show ?thesis by simp
next
  case (miss i m mn s1)
  from compute_miss_effect(1) [OF miss(4)] assms(2) miss(5,6) show ?thesis
    by (simp add: ties_make_current)
qed

lemma initialise_lasts: "initialise c = Inr s \<Longrightarrow> lasts_of s = [0, 0, 0]"
  by (auto simp: initialise_def Let_def lasts_of_def numeral_3_eq_3 empty_slot_def
           split: if_splits)

text \<open>
  C9, as the code has it. In every state the component can reach, two different slots
  hold the same stamp only when that stamp is the minimum of all stamps (as with the three
  zeros \<^verbatim>\<open>initialise\<close> writes); the search for the victim then takes the lowest index.
\<close>

theorem reachable_ties_only_at_min:
  assumes "reachable s"
  shows "ties_only_at_min (lasts_of s)"
  using assms
proof (induction rule: reachable.induct)
  case (init c s)
  from initialise_lasts [OF init] show ?case
    by (auto simp: ties_only_at_min_def nth_Cons split: nat.splits)
next
  case (after_compute s eng dv p r dv' s')
  then show ?case by (simp add: compute_ties)
next
  case (after_needs s kvs r s')
  then have "states s' = states s"
    by (metis needs_states snd_conv)
  with after_needs show ?case by (simp add: lasts_of_def)
next
  case (after_get_cl s eng rc s')
  then have "states s' = states s"
    by (metis get_cl_states snd_conv)
  with after_get_cl show ?case by (simp add: lasts_of_def)
qed

theorem reachable_ties_only_at_min_witness:
  "reachable (snd (snd (compute eng0 None pA st0)))
   \<and> lasts_of (snd (snd (compute eng0 None pA st0))) = [1, 0, 0]
   \<and> ties_only_at_min (lasts_of (snd (snd (compute eng0 None pA st0))))"
proof -
  have "reachable st0"
    using initialise_cfg0 by (rule reachable.init)
  moreover have "compute eng0 None pA st0
      = (fst (compute eng0 None pA st0), fst (snd (compute eng0 None pA st0)),
         snd (snd (compute eng0 None pA st0)))"
    by simp
  ultimately have r: "reachable (snd (snd (compute eng0 None pA st0)))"
    by (rule reachable.after_compute)
  have l: "lasts_of (snd (snd (compute eng0 None pA st0))) = [1, 0, 0]"
    by (simp add: unfold_calls unfold_fixtures)
  show ?thesis
    using reachable_ties_only_at_min [OF r] r l by simp
qed

text \<open>
  The claim as stated fails on the fresh state, where the first victim is chosen: the three
  stamps are equal.
\<close>

theorem distinct_stamps_counterexample:
  "(initialise cfg0 :: error + (pydict, pydict) state) = Inr st0 \<and> \<not> distinct (lasts_of st0)"
  by (simp add: initialise_cfg0) (simp add: st0_def lasts_of_def)

subsection \<open>The fixed parameters\<close>

lemma compute_on_miss:
  assumes none: "first_index (\<lambda>sl. params sl = Some p) (states s) = None"
    and ne: "states s \<noteq> []"
  obtains i mn m where
    "py_min (lasts_of s) = Inr mn" "py_index (lasts_of s) mn = Inr i" "i < length (states s)"
    "py_max (lasts_of s) = Inr m"
    "compute eng dv p s =
       (case compute_miss eng dv p i s of
          (Some e, dv', s') \<Rightarrow> (Some e, dv', s')
        | (None, dv', s') \<Rightarrow> (None, dv', make_current m i s'))"
proof -
  from ne have ne': "lasts_of s \<noteq> []"
    by (simp add: lasts_of_def)
  then obtain mn where mn: "py_min (lasts_of s) = Inr mn"
    by (cases "lasts_of s") auto
  from py_min_Inr [OF mn] have "mn \<in> set (lasts_of s)"
    by simp
  from py_index_mem [OF this] obtain i where i: "py_index (lasts_of s) mn = Inr i"
    by blast
  from py_index_Inr [OF i] have il: "i < length (states s)"
    by (simp add: lasts_of_def)
  from py_max_ex [OF ne'] obtain m where m: "py_max (lasts_of s) = Inr m"
    by blast
  have "compute eng dv p s =
       (case compute_miss eng dv p i s of
          (Some e, dv', s') \<Rightarrow> (Some e, dv', s')
        | (None, dv', s') \<Rightarrow> (None, dv', make_current m i s'))"
    by (simp add: compute_def Let_def none mn i m split: prod.splits option.splits)
  with mn i il m show ?thesis
    by (rule that)
qed

lemma compute_miss_fixed:
  assumes "first_index (\<lambda>sl. params sl = Some p) (states s) = None" and "states s \<noteq> []"
  shows "fixed (snd (snd (compute eng dv p s))) = (fixed s ++ p) ++ precision s"
    and "calls_set_params (snd (snd (compute eng dv p s))) = calls_set_params s + 1"
proof -
  from assms obtain i mn m where
    c: "compute eng dv p s =
       (case compute_miss eng dv p i s of
          (Some e, dv', s') \<Rightarrow> (Some e, dv', s')
        | (None, dv', s') \<Rightarrow> (None, dv', make_current m i s'))"
    by (rule compute_on_miss)
  obtain r dv1 s1 where r: "compute_miss eng dv p i s = (r, dv1, s1)"
    by (cases "compute_miss eng dv p i s") auto
  note eff = compute_miss_effect [OF r]
  show "fixed (snd (snd (compute eng dv p s))) = (fixed s ++ p) ++ precision s"
    using c r eff(5) by (cases r) simp_all
  show "calls_set_params (snd (snd (compute eng dv p s))) = calls_set_params s + 1"
    using c r eff(10) by (cases r) simp_all
qed

lemma compute_fixed_grows:
  assumes "compute eng dv p s = (r, dv', s')"
  shows "precision s' = precision s
       \<and> dom (fixed s) \<subseteq> dom (fixed s')
       \<and> (precision s \<subseteq>\<^sub>m fixed s \<longrightarrow> precision s \<subseteq>\<^sub>m fixed s')"
  using assms
proof (cases rule: compute_cases)
  case same
  then show ?thesis by simp
next
  case (hit i m)
  then show ?thesis by simp
next
  case (failed i mn e)
  note eff = compute_miss_effect [OF failed(4)]
  from eff(5,6) show ?thesis
    by (simp add: le_supI2)
next
  case (miss i m mn s1)
  note eff = compute_miss_effect [OF miss(4)]
  from eff(5,6) miss(6) show ?thesis
    by (simp add: le_supI2)
qed

lemma compute_seq_fixed_grows:
  "precision (snd (compute_seq eng rs s)) = precision s
   \<and> dom (fixed s) \<subseteq> dom (fixed (snd (compute_seq eng rs s)))
   \<and> (precision s \<subseteq>\<^sub>m fixed s \<longrightarrow> precision s \<subseteq>\<^sub>m fixed (snd (compute_seq eng rs s)))"
proof (induction rs arbitrary: s)
  case Nil
  show ?case by simp
next
  case (Cons r rs)
  obtain dv p where r: "r = (dv, p)" by (cases r)
  obtain e dv' s' where c: "compute eng dv p s = (e, dv', s')"
    by (cases "compute eng dv p s") auto
  from compute_fixed_grows [OF c] have
    g1: "precision s' = precision s" and
    g2: "dom (fixed s) \<subseteq> dom (fixed s')" and
    g3: "precision s \<subseteq>\<^sub>m fixed s \<longrightarrow> precision s \<subseteq>\<^sub>m fixed s'"
    by blast+
  show ?case
  proof (cases e)
    case None
    then have eq: "compute_seq eng (r # rs) s = compute_seq eng rs s'"
      using r c by simp
    from Cons.IH [of s'] have
      h1: "precision (snd (compute_seq eng rs s')) = precision s'" and
      h2: "dom (fixed s') \<subseteq> dom (fixed (snd (compute_seq eng rs s')))" and
      h3: "precision s' \<subseteq>\<^sub>m fixed s' \<longrightarrow> precision s' \<subseteq>\<^sub>m fixed (snd (compute_seq eng rs s'))"
      by blast+
    from g1 h1 have "precision (snd (compute_seq eng rs s')) = precision s"
      by simp
    moreover from g2 h2 have "dom (fixed s) \<subseteq> dom (fixed (snd (compute_seq eng rs s')))"
      by (rule order_trans)
    moreover from g1 g3 h3
    have "precision s \<subseteq>\<^sub>m fixed s \<longrightarrow> precision s \<subseteq>\<^sub>m fixed (snd (compute_seq eng rs s'))"
      by simp
    ultimately show ?thesis
      unfolding eq by blast
  next
    case (Some a)
    then have "compute_seq eng (r # rs) s = (Some a, s')"
      using r c by simp
    with g1 g2 g3 show ?thesis by simp
  qed
qed

text \<open>
  C10, as the code has it. \<^verbatim>\<open>args = self.fixed\<close> is the dictionary itself, so on every miss,
  whether or not the engine then raises, \<^verbatim>\<open>self.fixed\<close> becomes the old dictionary updated
  with the values of the call and then with the precision settings. It therefore holds
  every precision setting, and every value of the call whose name is not also a
  precision setting (the second update wins on a shared name). In every later run of
  calls no name leaves \<^verbatim>\<open>self.fixed\<close> and the precision settings stay as they are.
\<close>

theorem compute_miss_mutates_fixed:
  assumes "first_index (\<lambda>sl. params sl = Some p) (states s) = None" and "states s \<noteq> []"
  shows "fixed (snd (snd (compute eng dv p s))) = (fixed s ++ p) ++ precision s
       \<and> (\<forall>k \<in> dom (precision s). fixed (snd (snd (compute eng dv p s))) k = precision s k)
       \<and> (\<forall>k \<in> dom p. k \<notin> dom (precision s)
             \<longrightarrow> fixed (snd (snd (compute eng dv p s))) k = p k)
       \<and> (\<forall>eng2 rs.
             dom (fixed (snd (snd (compute eng dv p s))))
               \<subseteq> dom (fixed (snd (compute_seq eng2 rs (snd (snd (compute eng dv p s))))))
           \<and> (\<forall>k \<in> dom (precision s).
                 fixed (snd (compute_seq eng2 rs (snd (snd (compute eng dv p s))))) k
                   = precision s k))"
proof -
  let ?s' = "snd (snd (compute eng dv p s))"
  have f: "fixed ?s' = (fixed s ++ p) ++ precision s"
    by (rule compute_miss_fixed [OF assms])
  have pr: "precision ?s' = precision s"
    using compute_fixed_grows [of eng dv p s] by (metis prod.collapse)
  have a: "\<forall>k \<in> dom (precision s). fixed ?s' k = precision s k"
    using f by auto
  have b: "\<forall>k \<in> dom p. k \<notin> dom (precision s) \<longrightarrow> fixed ?s' k = p k"
    using f by (auto simp: map_add_def split: option.splits)
  have le: "precision ?s' \<subseteq>\<^sub>m fixed ?s'"
    using a pr by (simp add: map_le_def)
  have c: "dom (fixed ?s') \<subseteq> dom (fixed (snd (compute_seq eng2 rs ?s')))
           \<and> (\<forall>k \<in> dom (precision s). fixed (snd (compute_seq eng2 rs ?s')) k = precision s k)"
    for eng2 :: "('a, 'b) engine" and rs
    using compute_seq_fixed_grows [of eng2 rs ?s'] le pr
    by (auto simp: map_le_def)
  from f a b c show ?thesis
    by blast
qed

theorem compute_miss_mutates_fixed_witness:
  "first_index (\<lambda>sl. params sl = Some pA) (states st_prec) = None \<and> states st_prec \<noteq> []
   \<and> fixed (snd (snd (compute eng0 None pA st_prec))) = (fixed st_prec ++ pA) ++ precision st_prec
   \<and> fixed (snd (snd (compute eng0 None pA st_prec))) ''x'' = Some (PyNum 9)"
proof -
  have h1: "first_index (\<lambda>sl. params sl = Some pA) (states st_prec) = None"
    by (simp add: st_prec_def unfold_fixtures)
  have h2: "states st_prec \<noteq> []"
    by (simp add: st_prec_def unfold_fixtures)
  have p: "precision st_prec ''x'' = Some (PyNum 9)"
    by (simp add: st_prec_def)
  from compute_miss_mutates_fixed [OF h1 h2, of eng0 None]
  have "fixed (snd (snd (compute eng0 None pA st_prec))) = (fixed st_prec ++ pA) ++ precision st_prec"
    by blast
  with h1 h2 p show ?thesis
    by (simp add: map_add_def)
qed

text \<open>
  The claim as stated fails where a precision setting has the name of a sampled parameter:
  after the miss \<^verbatim>\<open>self.fixed\<close> holds the precision setting 9 under \<open>x\<close>, not the value 1 of the
  call.
\<close>

theorem compute_miss_mutates_fixed_counterexample:
  "pA ''x'' = Some (PyNum 1)
   \<and> calls_set_params (snd (snd (compute eng0 None pA st_prec))) = 1
   \<and> fixed (snd (snd (compute eng0 None pA st_prec))) ''x'' = Some (PyNum 9)"
  by (simp add: pA_def st_prec_def unfold_calls unfold_fixtures)

subsection \<open>Asking again for the same values\<close>

lemma first_index_SomeI:
  "i < length xs \<Longrightarrow> P (xs ! i) \<Longrightarrow> (\<forall>j < i. \<not> P (xs ! j)) \<Longrightarrow> first_index P xs = Some i"
proof (induction xs arbitrary: i)
  case Nil
  then show ?case by simp
next
  case (Cons x xs)
  show ?case
  proof (cases i)
    case 0
    with Cons.prems show ?thesis by simp
  next
    case (Suc k)
    with Cons.prems have "\<not> P x" by auto
    moreover from Suc Cons.prems have "first_index P xs = Some k"
      by (intro Cons.IH) auto
    ultimately show ?thesis using Suc by simp
  qed
qed

lemma first_index_params_make_current:
  "first_index (\<lambda>sl. params sl = Some p) (states (make_current m i s))
     = first_index (\<lambda>sl. params sl = Some p) (states s)"
  using first_index_map [of "\<lambda>k. k = Some p" params "states (make_current m i s)"]
        first_index_map [of "\<lambda>k. k = Some p" params "states s"]
  by (simp add: params_make_current)

lemma py_dict_fold:
  "fold (\<lambda>(k, v) m. m(k \<mapsto> v)) (zip ps (map f ps)) m0
     = (\<lambda>k. if k \<in> set ps then Some (f k) else m0 k)"
  by (induction ps arbitrary: m0) (auto simp: fun_eq_iff)

lemma py_dict_zip:
  assumes "dom d = set ps"
  shows "py_dict (zip ps (map (\<lambda>n. case d n of Some v \<Rightarrow> v | None \<Rightarrow> PyNone) ps)) = d"
proof
  fix k
  show "py_dict (zip ps (map (\<lambda>n. case d n of Some v \<Rightarrow> v | None \<Rightarrow> PyNone) ps)) k = d k"
    using assms unfolding py_dict_def py_dict_fold
    by (cases "d k") auto
qed

lemma get_derived_loop_dom:
  "get_derived_loop eng cpo ps d = (None, d') \<Longrightarrow> dom d' = dom d \<union> set ps"
proof (induction ps arbitrary: d)
  case Nil
  then show ?case by simp
next
  case (Cons a ps)
  then show ?case
    by (auto split: option.splits sum.splits if_splits)
qed

lemma compute_miss_derived:
  assumes "compute_miss eng dv p i s = (None, dv', s1)" and "i < length (states s)"
  shows "dv = Some Map.empty \<Longrightarrow>
           \<exists>d. dv' = Some d \<and> dom d = set (self_derived s)
              \<and> derived (states s1 ! i)
                  = Some (map (\<lambda>n. case d n of Some v \<Rightarrow> v | None \<Rightarrow> PyNone) (self_derived s))"
    and "dv \<noteq> Some Map.empty \<Longrightarrow> dv' = dv"
  using assms
  by (auto simp: compute_miss_def set_py_def get_derived_def Let_def
           dest!: get_derived_loop_dom
           split: sum.splits option.splits prod.splits if_splits)

lemma compute_on_hit:
  assumes "first_index (\<lambda>sl. params sl = Some p) (states s) = Some i"
    and "py_max (lasts_of s) = Inr m"
  shows "compute eng dv p s =
     (if dv = Some Map.empty then
        (case derived (states s ! i) of
           None \<Rightarrow> (Some TypeError, dv, s)
         | Some vs \<Rightarrow> (None, Some (py_dict (zip (self_derived s) vs)), make_current m i s))
      else (None, dv, make_current m i s))"
  using assms by (simp add: compute_def Let_def split: option.splits)

lemma compute_None_index:
  assumes "compute eng dv p s = (None, dv1, s1)"
  shows "\<exists>i. first_index (\<lambda>sl. params sl = Some p) (states s1) = Some i
           \<and> i < length (states s1)
           \<and> current_index s1 = Inr i
           \<and> last_py (states s1 ! i) = 1
           \<and> (dv = Some Map.empty \<longrightarrow>
                (\<exists>vs. derived (states s1 ! i) = Some vs
                    \<and> dv1 = Some (py_dict (zip (self_derived s1) vs))))
           \<and> (dv \<noteq> Some Map.empty \<longrightarrow> dv1 = dv)"
  using assms
proof (cases rule: compute_None_cases)
  case (hit i m)
  from first_index_Some [OF hit(1)] have i: "i < length (states s)"
    by simp
  show ?thesis
    using hit i current_index_make_current [OF hit(2) i]
    by (intro exI [of _ i]) (auto simp: first_index_params_make_current make_current_nth)
next
  case (miss i m mn s1')
  note eff = compute_miss_effect [OF miss(4)]
  from py_index_Inr [OF miss(3)] have i: "i < length (states s)"
    by (simp add: lasts_of_def)
  with eff have i1: "i < length (states s1')" "params (states s1' ! i) = Some p"
    by auto
  from miss(5) eff(1) have m1: "py_max (lasts_of s1') = Inr m" by simp
  have "\<not> params (states s1' ! j) = Some p" if "j < i" for j
  proof -
    from that i have "states s ! j \<in> set (states s)" by simp
    with miss(1) have "params (states s ! j) \<noteq> Some p"
      by (simp add: first_index_None_iff)
    with eff(4) [of j] that show ?thesis by simp
  qed
  with i1 have fi: "first_index (\<lambda>sl. params sl = Some p) (states s1') = Some i"
    by (intro first_index_SomeI) auto
  from compute_miss_derived [OF miss(4) i] eff(7)
  have d: "dv = Some Map.empty \<longrightarrow>
             (\<exists>vs. derived (states s1' ! i) = Some vs
                 \<and> dv1 = Some (py_dict (zip (self_derived s1') vs)))"
    and d': "dv \<noteq> Some Map.empty \<longrightarrow> dv1 = dv"
    by (auto simp: py_dict_zip)
  show ?thesis
    using miss(6) i1 fi d d' current_index_make_current [OF m1 i1(1)]
    by (intro exI [of _ i]) (auto simp: first_index_params_make_current make_current_nth)
qed


lemma compute_calls:
  assumes "compute eng dv p s = (None, dv1, s1)"
  shows "(first_index (\<lambda>sl. params sl = Some p) (states s) = None \<longrightarrow>
           calls_set_params s1 = calls_set_params s + 1
         \<and> calls_get_results s1 = calls_get_results s + 1)
       \<and> (first_index (\<lambda>sl. params sl = Some p) (states s) \<noteq> None \<longrightarrow>
           calls_set_params s1 = calls_set_params s
         \<and> calls_get_results s1 = calls_get_results s)"
  using assms
proof (cases rule: compute_None_cases)
  case (hit i m)
  then show ?thesis by simp
next
  case (miss i m mn s1')
  note eff = compute_miss_effect [OF miss(4)]
  from miss(1,6) eff(10,11) show ?thesis by simp
qed

text \<open>
  What does hold of a repeated call. If \<^verbatim>\<open>compute\<close> returned for some values, from any
  state, a second call with the same values and the same \<^verbatim>\<open>derived\<close> argument returns too,
  finds the slot holding these values, makes no call to the engine, leaves the store of
  arrays as it is, and hands back the same dictionary of derived values; the slot that
  \<^verbatim>\<open>current_state\<close> returns after the second call is the very slot it returned after the
  first, with the same results and spectra. When the first call was a miss, \<^verbatim>\<open>set_params\<close>
  and \<^verbatim>\<open>get_results\<close> have each been called exactly once over the two calls.
\<close>

lemma compute_repeat_same_request:
  assumes "compute eng dv p s = (None, dv1, s1)"
  shows "\<exists>s2 i. compute eng dv p s1 = (None, dv1, s2)
           \<and> calls_set_params s2 = calls_set_params s1
           \<and> calls_get_results s2 = calls_get_results s1
           \<and> heap s2 = heap s1
           \<and> first_index (\<lambda>sl. params sl = Some p) (states s1) = Some i
           \<and> current_state s1 = Inr (states s1 ! i)
           \<and> current_state s2 = Inr (states s1 ! i)
           \<and> (first_index (\<lambda>sl. params sl = Some p) (states s) = None \<longrightarrow>
                 calls_set_params s2 = calls_set_params s + 1
               \<and> calls_get_results s2 = calls_get_results s + 1)"
proof -
  from compute_None_index [OF assms] obtain i where
    fi: "first_index (\<lambda>sl. params sl = Some p) (states s1) = Some i" and
    i: "i < length (states s1)" and
    ci: "current_index s1 = Inr i" and
    one: "last_py (states s1 ! i) = 1" and
    d: "dv = Some Map.empty \<longrightarrow>
          (\<exists>vs. derived (states s1 ! i) = Some vs
              \<and> dv1 = Some (py_dict (zip (self_derived s1) vs)))" and
    d': "dv \<noteq> Some Map.empty \<longrightarrow> dv1 = dv"
    by blast
  from i have "lasts_of s1 \<noteq> []"
    by (auto simp: lasts_of_def)
  then obtain m where m: "py_max (lasts_of s1) = Inr m"
    using py_max_ex by blast
  with ci have "py_index (lasts_of s1) m = Inr i"
    by (simp add: current_index_def)
  from py_index_Inr [OF this] one i have m1: "m = 1"
    by (simp add: lasts_of_def)
  let ?s2 = "make_current m i s1"
  have c2: "compute eng dv p s1 = (None, dv1, ?s2)"
    using compute_on_hit [OF fi m, of eng dv] d d' by auto
  have "states ?s2 ! i = states s1 ! i"
    using i one m1 by (simp add: make_current_def Let_def)
  moreover have "current_index ?s2 = Inr i"
    using current_index_make_current [OF m i] .
  ultimately have cs2: "current_state ?s2 = Inr (states s1 ! i)"
    by (simp add: current_state_def)
  have cs1: "current_state s1 = Inr (states s1 ! i)"
    using ci by (simp add: current_state_def)
  from compute_calls [OF assms]
  have "first_index (\<lambda>sl. params sl = Some p) (states s) = None \<longrightarrow>
                 calls_set_params ?s2 = calls_set_params s + 1
               \<and> calls_get_results ?s2 = calls_get_results s + 1"
    by simp
  with c2 fi cs1 cs2 show ?thesis
    by (intro exI [of _ ?s2] exI [of _ i]) simp
qed

lemma compute_A_st0: "fst (compute eng0 (Some Map.empty) pA st0) = None"
  by (simp add: pA_def unfold_calls unfold_fixtures)

lemma compute_repeat_same_request_example:
  "compute eng0 (Some Map.empty) pA st0
     = (None, fst (snd (compute eng0 (Some Map.empty) pA st0)),
        snd (snd (compute eng0 (Some Map.empty) pA st0)))
   \<and> first_index (\<lambda>sl. params sl = Some pA) (states st0) = None
   \<and> fst (snd (compute eng0 (Some Map.empty) pA st0)) = Some [''x'' \<mapsto> PyNum 1]
   \<and> (\<exists>s2 i. compute eng0 (Some Map.empty) pA (snd (snd (compute eng0 (Some Map.empty) pA st0)))
              = (None, Some [''x'' \<mapsto> PyNum 1], s2)
           \<and> calls_set_params s2 = 1 \<and> calls_get_results s2 = 1
           \<and> current_state s2
                = Inr (states (snd (snd (compute eng0 (Some Map.empty) pA st0))) ! i))"
proof -
  have h: "compute eng0 (Some Map.empty) pA st0
     = (None, fst (snd (compute eng0 (Some Map.empty) pA st0)),
        snd (snd (compute eng0 (Some Map.empty) pA st0)))"
    using compute_A_st0 by (metis prod.collapse)
  have n: "first_index (\<lambda>sl. params sl = Some pA) (states st0) = None"
    by (simp add: unfold_fixtures)
  have d: "fst (snd (compute eng0 (Some Map.empty) pA st0)) = Some [''x'' \<mapsto> PyNum 1]"
    by (simp add: pA_def unfold_calls unfold_fixtures)
  have c: "calls_set_params st0 = 0" "calls_get_results st0 = 0"
    by (simp_all add: st0_def)
  from compute_repeat_same_request [OF h] n d c h show ?thesis
    by (metis One_nat_def add.left_neutral add.commute)
qed

subsection \<open>Eviction\<close>

lemma compute_None_step:
  assumes "compute eng dv p s = (None, dv', s')"
  shows "\<exists>i m. py_max (lasts_of s) = Inr m
      \<and> (case first_index (\<lambda>k. k = Some p) (map params (states s)) of
            Some j \<Rightarrow> i = j \<and> calls_set_params s' = calls_set_params s
          | None \<Rightarrow> (\<exists>mn. py_min (lasts_of s) = Inr mn \<and> py_index (lasts_of s) mn = Inr i)
                    \<and> calls_set_params s' = calls_set_params s + 1)
      \<and> map params (states s') = (map params (states s))[i := Some p]
      \<and> lasts_of s' = (map (\<lambda>x. x - m) (lasts_of s))[i := 1]"
  using assms
proof (cases rule: compute_None_cases)
  case (hit i m)
  from first_index_Some [OF hit(1)] have "params (states s ! i) = Some p"
    by simp
  then have "(map params (states s))[i := Some p] = map params (states s)"
    by (simp add: map_update_keep)
  with hit show ?thesis
    by (intro exI [of _ i] exI [of _ m])
       (simp add: first_index_map params_make_current lasts_of_make_current)
next
  case (miss i m mn s1)
  note eff = compute_miss_effect [OF miss(4)]
  from py_index_Inr [OF miss(3)] have i: "i < length (states s)"
    by (simp add: lasts_of_def)
  have "map params (states s1) = (map params (states s))[i := Some p]"
    using eff(2,3,4) i by (intro nth_equalityI) (auto simp: nth_list_update)
  with miss eff(1,10) show ?thesis
    by (intro exI [of _ i] exI [of _ m])
       (simp add: first_index_map params_make_current lasts_of_make_current)
qed

lemma px_eq: "[''x'' \<mapsto> PyNum a] = [''x'' \<mapsto> PyNum b] \<longleftrightarrow> a = b"
  by (metis map_upd_eqD1 pyval.inject)

lemma distinct_ABCD: "distinct [pA, pB, pC, pD]"
  by (simp add: pA_def pB_def pC_def pD_def px_eq)

lemma compute_miss_populates:
  assumes "compute_miss eng dv p i s = (None, dv', s1)" and "i < length (states s)"
  shows "\<exists>cp cr arr.
           set_params eng ((fixed s ++ p) ++ precision s) = Inr cp
         \<and> get_results eng cp = Inr cr
         \<and> get_cmb_power_spectra eng cr cp = Inr arr
         \<and> params (states s1 ! i) = Some p
         \<and> CAMBparams (states s1 ! i) = Some cp
         \<and> CAMBresults (states s1 ! i) = Some cr
         \<and> powers (states s1 ! i) = Some (length (heap s))
         \<and> heap s1 = heap s @ [arr]"
  using assms
  by (auto simp: compute_miss_def set_py_def get_derived_def Let_def
           split: sum.splits option.splits prod.splits if_splits)

lemma computed_for_kept:
  assumes c: "computed_for eng s q sl"
    and pr: "precision s' = precision s"
    and hp: "take (length (heap s)) (heap s') = heap s"
    and same: "params sl' = params sl" "CAMBparams sl' = CAMBparams sl"
      "CAMBresults sl' = CAMBresults sl" "powers sl' = powers sl"
  shows "computed_for eng s' q sl'"
proof -
  from c obtain f cp cr a where
    k: "params sl = Some q" and
    x: "set_params eng ((f ++ q) ++ precision s) = Inr cp" "CAMBparams sl = Some cp"
       "get_results eng cp = Inr cr" "CAMBresults sl = Some cr"
       "powers sl = Some a" "a < length (heap s)"
       "get_cmb_power_spectra eng cr cp = Inr (heap s ! a)"
    unfolding computed_for_def by blast
  from hp have "length (take (length (heap s)) (heap s')) = length (heap s)"
    by simp
  then have le: "length (heap s) \<le> length (heap s')"
    by simp
  from hp x(6) have nth: "heap s' ! a = heap s ! a"
    by (metis nth_take)
  from le x(6) have a': "a < length (heap s')"
    by simp
  show ?thesis
    unfolding computed_for_def
    using k x(1-5) a' x(7) nth pr same
    by (intro conjI exI [of _ f] exI [of _ cp] exI [of _ cr] exI [of _ a]) simp_all
qed

lemma compute_None_miss_step:
  assumes c: "compute eng dv p s = (None, dv', s')"
    and none: "first_index (\<lambda>k. k = Some p) (map params (states s)) = None"
  shows "\<exists>i < length (states s).
           (\<exists>mn. py_min (lasts_of s) = Inr mn \<and> py_index (lasts_of s) mn = Inr i)
         \<and> computed_for eng s' p (states s' ! i)
         \<and> (\<forall>j < length (states s). j \<noteq> i \<longrightarrow>
               (\<forall>q. computed_for eng s q (states s ! j) \<longrightarrow> computed_for eng s' q (states s' ! j)))
         \<and> calls_get_results s' = calls_get_results s + 1
         \<and> (\<exists>cp cr arr.
               set_params eng ((fixed s ++ p) ++ precision s) = Inr cp
             \<and> get_results eng cp = Inr cr
             \<and> get_cmb_power_spectra eng cr cp = Inr arr
             \<and> CAMBparams (states s' ! i) = Some cp
             \<and> CAMBresults (states s' ! i) = Some cr
             \<and> powers (states s' ! i) = Some (length (heap s))
             \<and> heap s' = heap s @ [arr])"
  using c
proof (cases rule: compute_None_cases)
  case (hit i m)
  with none show ?thesis
    by (simp add: first_index_map)
next
  case (miss i m mn s1)
  note eff = compute_miss_effect [OF miss(4)]
  from py_index_Inr [OF miss(3)] have i: "i < length (states s)"
    by (simp add: lasts_of_def)
  with eff(2) have i1: "i < length (states s1)"
    by simp
  from compute_miss_populates [OF miss(4) i] obtain cp cr arr where
    e: "set_params eng ((fixed s ++ p) ++ precision s) = Inr cp"
       "get_results eng cp = Inr cr"
       "get_cmb_power_spectra eng cr cp = Inr arr" and
    f: "params (states s1 ! i) = Some p"
       "CAMBparams (states s1 ! i) = Some cp"
       "CAMBresults (states s1 ! i) = Some cr"
       "powers (states s1 ! i) = Some (length (heap s))" and
    h: "heap s1 = heap s @ [arr]"
    by blast
  have fields: "params (states s' ! j) = params (states s1 ! j)"
    "CAMBparams (states s' ! j) = CAMBparams (states s1 ! j)"
    "CAMBresults (states s' ! j) = CAMBresults (states s1 ! j)"
    "powers (states s' ! j) = powers (states s1 ! j)"
    if "j < length (states s)" for j
    using that eff(2) miss(6) by (simp_all add: make_current_nth)
  have hs': "heap s' = heap s @ [arr]" and ps': "precision s' = precision s"
    using miss(6) h eff(6) by simp_all
  have new: "computed_for eng s' p (states s' ! i)"
    unfolding computed_for_def
    using fields [OF i] f e hs' ps'
    by (intro conjI exI [of _ "fixed s"] exI [of _ cp] exI [of _ cr]
          exI [of _ "length (heap s)"]) simp_all
  have old: "computed_for eng s' q (states s' ! j)"
    if "j < length (states s)" "j \<noteq> i" "computed_for eng s q (states s ! j)" for j q
  proof (rule computed_for_kept [OF that(3) ps'])
    show "take (length (heap s)) (heap s') = heap s"
      using hs' by simp
  qed (use fields [OF that(1)] eff(4) [OF that(2)] in simp_all)
  have g: "calls_get_results s' = calls_get_results s + 1"
    using miss(6) eff(11) by simp
  show ?thesis
    using i miss(2,3) new old g e f fields [OF i] hs'
    by (intro exI [of _ i]) auto
qed


lemma miss_victim:
  assumes none: "first_index (\<lambda>sl. params sl = Some p) (states s) = None"
    and ne: "states s \<noteq> []"
  shows "\<exists>v < length (states s).
           params (states (snd (snd (compute eng dv p s))) ! v) = Some p
         \<and> (\<forall>j < length (states s). last_py (states s ! v) \<le> last_py (states s ! j))
         \<and> (\<forall>j < v. last_py (states s ! v) < last_py (states s ! j))
         \<and> (\<forall>j < length (states s). j \<noteq> v \<longrightarrow>
               params (states (snd (snd (compute eng dv p s))) ! j) = params (states s ! j))
         \<and> calls_set_params (snd (snd (compute eng dv p s))) = calls_set_params s + 1
         \<and> (fst (compute eng dv p s) = None \<longrightarrow>
               calls_get_results (snd (snd (compute eng dv p s))) = calls_get_results s + 1
             \<and> computed_for eng (snd (snd (compute eng dv p s))) p
                  (states (snd (snd (compute eng dv p s))) ! v)
             \<and> (\<exists>cp cr arr.
                   set_params eng ((fixed s ++ p) ++ precision s) = Inr cp
                 \<and> get_results eng cp = Inr cr
                 \<and> get_cmb_power_spectra eng cr cp = Inr arr
                 \<and> CAMBparams (states (snd (snd (compute eng dv p s))) ! v) = Some cp
                 \<and> CAMBresults (states (snd (snd (compute eng dv p s))) ! v) = Some cr
                 \<and> powers (states (snd (snd (compute eng dv p s))) ! v) = Some (length (heap s))
                 \<and> heap (snd (snd (compute eng dv p s))) = heap s @ [arr]))"
proof -
  from none ne obtain i mn m where
    mn: "py_min (lasts_of s) = Inr mn" and ix: "py_index (lasts_of s) mn = Inr i" and
    i: "i < length (states s)" and
    c: "compute eng dv p s =
       (case compute_miss eng dv p i s of
          (Some e, dv', s') \<Rightarrow> (Some e, dv', s')
        | (None, dv', s') \<Rightarrow> (None, dv', make_current m i s'))"
    by (rule compute_on_miss)
  obtain r dv1 s1 where r: "compute_miss eng dv p i s = (r, dv1, s1)"
    by (cases "compute_miss eng dv p i s") auto
  note eff = compute_miss_effect [OF r]
  let ?s' = "snd (snd (compute eng dv p s))"
  have par: "params (states ?s' ! j) = params (states s1 ! j)" if "j < length (states s)" for j
    using c r eff(2) that by (cases r) (simp_all add: make_current_nth)
  have a: "params (states ?s' ! i) = Some p"
    using par [OF i] eff(3) [OF i] by simp
  have b: "params (states ?s' ! j) = params (states s ! j)" if "j < length (states s)" "j \<noteq> i" for j
    using par [OF that(1)] eff(4) [OF that(2)] by simp
  from py_index_Inr [OF ix] have at: "last_py (states s ! i) = mn"
    and before: "\<forall>j < i. lasts_of s ! j \<noteq> mn"
    using i by (simp_all add: lasts_of_def)
  have least: "mn \<le> last_py (states s ! j)" if "j < length (states s)" for j
    using py_min_Inr [OF mn] that by (simp add: lasts_of_def)
  have strict: "mn < last_py (states s ! j)" if "j < i" for j
  proof -
    from that i have j: "j < length (states s)" by simp
    from before that have "lasts_of s ! j \<noteq> mn"
      by blast
    with j have "last_py (states s ! j) \<noteq> mn"
      by (simp add: lasts_of_def)
    with least [OF j] show ?thesis by simp
  qed
  have cs: "calls_set_params ?s' = calls_set_params s + 1"
    by (rule compute_miss_fixed(2) [OF none ne])
  have res: "calls_get_results ?s' = calls_get_results s + 1
             \<and> computed_for eng ?s' p (states ?s' ! i)
             \<and> (\<exists>cp cr arr.
                   set_params eng ((fixed s ++ p) ++ precision s) = Inr cp
                 \<and> get_results eng cp = Inr cr
                 \<and> get_cmb_power_spectra eng cr cp = Inr arr
                 \<and> CAMBparams (states ?s' ! i) = Some cp
                 \<and> CAMBresults (states ?s' ! i) = Some cr
                 \<and> powers (states ?s' ! i) = Some (length (heap s))
                 \<and> heap ?s' = heap s @ [arr])"
    if ok: "fst (compute eng dv p s) = None"
  proof -
    from ok have full: "compute eng dv p s = (None, fst (snd (compute eng dv p s)), ?s')"
      by (metis prod.collapse)
    from none have none': "first_index (\<lambda>k. k = Some p) (map params (states s)) = None"
      by (simp add: first_index_map)
    from compute_None_miss_step [OF full none'] obtain i' mn' where
      m': "py_min (lasts_of s) = Inr mn'" "py_index (lasts_of s) mn' = Inr i'" and
      rest: "computed_for eng ?s' p (states ?s' ! i')"
        "calls_get_results ?s' = calls_get_results s + 1"
        "\<exists>cp cr arr.
               set_params eng ((fixed s ++ p) ++ precision s) = Inr cp
             \<and> get_results eng cp = Inr cr
             \<and> get_cmb_power_spectra eng cr cp = Inr arr
             \<and> CAMBparams (states ?s' ! i') = Some cp
             \<and> CAMBresults (states ?s' ! i') = Some cr
             \<and> powers (states ?s' ! i') = Some (length (heap s))
             \<and> heap ?s' = heap s @ [arr]"
      by blast
    from m' mn ix have "i' = i" by simp
    with rest show ?thesis by simp
  qed
  show ?thesis
    using i a b at least strict cs res by (intro exI [of _ i]) simp
qed


text \<open>
  C2. From the state \<^verbatim>\<open>initialise\<close> builds (three slots), four calls with pairwise different
  values that all return leave exactly three slots, each populated for its key: the
  fourth, second and third values, the first having been overwritten by the fourth.
  \<^verbatim>\<open>set_params\<close> and \<^verbatim>\<open>get_results\<close> have each been called four times and the store holds
  four arrays of spectra. Asking for the first values again calls \<^verbatim>\<open>set_params\<close> a fifth
  time, and if that call returns, \<^verbatim>\<open>get_results\<close> has been called a fifth time and slot 1,
  the oldest by then, is populated for the first values with a fifth array. On every miss,
  in any state, the slot written is one with the minimum stamp, every slot before it has
  a strictly greater stamp, no other slot changes its key, \<^verbatim>\<open>set_params\<close> is called once, and
  if the call returns, \<^verbatim>\<open>get_results\<close> has been called once and the slot holds the parameter
  object, the results and the new array of spectra the engine returned for these values.
\<close>

theorem eviction_of_oldest:
  assumes init: "initialise c = Inr s0"
    and dist: "distinct [p1, p2, p3, p4]"
    and run: "compute_seq eng [(d1, p1), (d2, p2), (d3, p3), (d4, p4)] s0 = (None, s4)"
  shows "length (states s4) = 3
       \<and> map params (states s4) = [Some p4, Some p2, Some p3]
       \<and> computed_for eng s4 p4 (states s4 ! 0)
       \<and> computed_for eng s4 p2 (states s4 ! 1)
       \<and> computed_for eng s4 p3 (states s4 ! 2)
       \<and> calls_set_params s4 = 4
       \<and> calls_get_results s4 = 4
       \<and> length (heap s4) = 4
       \<and> calls_set_params (snd (snd (compute eng d5 p1 s4))) = 5
       \<and> (fst (compute eng d5 p1 s4) = None \<longrightarrow>
             calls_get_results (snd (snd (compute eng d5 p1 s4))) = 5
           \<and> map params (states (snd (snd (compute eng d5 p1 s4)))) = [Some p4, Some p1, Some p3]
           \<and> computed_for eng (snd (snd (compute eng d5 p1 s4))) p1
                (states (snd (snd (compute eng d5 p1 s4))) ! 1)
           \<and> length (heap (snd (snd (compute eng d5 p1 s4)))) = 5)
       \<and> (\<forall>s p dv. first_index (\<lambda>sl. params sl = Some p) (states s) = None \<and> states s \<noteq> [] \<longrightarrow>
            (\<exists>v < length (states s).
               params (states (snd (snd (compute eng dv p s))) ! v) = Some p
             \<and> (\<forall>j < length (states s). last_py (states s ! v) \<le> last_py (states s ! j))
             \<and> (\<forall>j < v. last_py (states s ! v) < last_py (states s ! j))
             \<and> (\<forall>j < length (states s). j \<noteq> v \<longrightarrow>
                   params (states (snd (snd (compute eng dv p s))) ! j) = params (states s ! j))
             \<and> calls_set_params (snd (snd (compute eng dv p s))) = calls_set_params s + 1
             \<and> (fst (compute eng dv p s) = None \<longrightarrow>
                   calls_get_results (snd (snd (compute eng dv p s))) = calls_get_results s + 1
                 \<and> computed_for eng (snd (snd (compute eng dv p s))) p
                      (states (snd (snd (compute eng dv p s))) ! v)
                 \<and> (\<exists>cp cr arr.
                       set_params eng ((fixed s ++ p) ++ precision s) = Inr cp
                     \<and> get_results eng cp = Inr cr
                     \<and> get_cmb_power_spectra eng cr cp = Inr arr
                     \<and> CAMBparams (states (snd (snd (compute eng dv p s))) ! v) = Some cp
                     \<and> CAMBresults (states (snd (snd (compute eng dv p s))) ! v) = Some cr
                     \<and> powers (states (snd (snd (compute eng dv p s))) ! v)
                          = Some (length (heap s))
                     \<and> heap (snd (snd (compute eng dv p s))) = heap s @ [arr]))))"
proof -
  from init have k0: "map params (states s0) = [None, None, None]"
    and l0: "lasts_of s0 = [0, 0, 0]" and c0: "calls_set_params s0 = 0"
    and g0: "calls_get_results s0 = 0" and h0: "heap s0 = []"
    by (auto simp: initialise_def Let_def lasts_of_def numeral_3_eq_3 empty_slot_def
             split: if_splits)
  from run obtain e1 s1 where r1: "compute eng d1 p1 s0 = (None, e1, s1)"
    and run1: "compute_seq eng [(d2, p2), (d3, p3), (d4, p4)] s1 = (None, s4)"
    by (auto split: prod.splits option.splits)
  from run1 obtain e2 s2 where r2: "compute eng d2 p2 s1 = (None, e2, s2)"
    and run2: "compute_seq eng [(d3, p3), (d4, p4)] s2 = (None, s4)"
    by (auto split: prod.splits option.splits)
  from run2 obtain e3 s3 where r3: "compute eng d3 p3 s2 = (None, e3, s3)"
    and r4': "compute_seq eng [(d4, p4)] s3 = (None, s4)"
    by (auto split: prod.splits option.splits)
  from r4' obtain e4 where r4: "compute eng d4 p4 s3 = (None, e4, s4)"
    by (auto split: prod.splits option.splits)
  \<comment> \<open>keys, stamps and calls of \<^verbatim>\<open>set_params\<close>\<close>
  from compute_None_step [OF r1] k0 l0 c0
  have k1: "map params (states s1) = [Some p1, None, None]"
    and l1: "lasts_of s1 = [1, 0, 0]" and c1: "calls_set_params s1 = 1"
    by (auto simp: py_index_def)
  from compute_None_step [OF r2] k1 l1 c1 dist
  have k2: "map params (states s2) = [Some p1, Some p2, None]"
    and l2: "lasts_of s2 = [0, 1, - 1]" and c2: "calls_set_params s2 = 2"
    by (auto simp: py_index_def)
  from compute_None_step [OF r3] k2 l2 c2 dist
  have k3: "map params (states s3) = [Some p1, Some p2, Some p3]"
    and l3: "lasts_of s3 = [- 1, 0, 1]" and c3: "calls_set_params s3 = 3"
    by (auto simp: py_index_def)
  from compute_None_step [OF r4] k3 l3 c3 dist
  have k4: "map params (states s4) = [Some p4, Some p2, Some p3]"
    and l4: "lasts_of s4 = [1, - 1, 0]" and c4: "calls_set_params s4 = 4"
    by (auto simp: py_index_def)
  have n0: "length (states s0) = 3" and n1: "length (states s1) = 3"
    and n2: "length (states s2) = 3" and n3: "length (states s3) = 3"
    and n4: "length (states s4) = 3"
    using k0 k1 k2 k3 k4 by (metis length_map length_Cons list.size(3) numeral_3_eq_3)+
  \<comment> \<open>results, spectra and calls of \<^verbatim>\<open>get_results\<close>\<close>
  have m1: "first_index (\<lambda>k. k = Some p1) (map params (states s0)) = None"
    using k0 by simp
  from compute_None_miss_step [OF r1 m1] l0 g0 h0
  have a1: "computed_for eng s1 p1 (states s1 ! 0)"
    and g1: "calls_get_results s1 = 1" and h1: "length (heap s1) = 1"
    by (auto simp: py_index_def)
  have m2: "first_index (\<lambda>k. k = Some p2) (map params (states s1)) = None"
    using k1 dist by simp
  from compute_None_miss_step [OF r2 m2] l1 g1 h1 n1
  have a2: "computed_for eng s2 p2 (states s2 ! 1)"
    and keep2: "\<forall>q. computed_for eng s1 q (states s1 ! 0) \<longrightarrow> computed_for eng s2 q (states s2 ! 0)"
    and g2: "calls_get_results s2 = 2" and h2: "length (heap s2) = 2"
    by (auto simp: py_index_def)
  from keep2 a1 have b2: "computed_for eng s2 p1 (states s2 ! 0)"
    by blast
  have m3: "first_index (\<lambda>k. k = Some p3) (map params (states s2)) = None"
    using k2 dist by simp
  from compute_None_miss_step [OF r3 m3] l2 g2 h2 n2
  have a3: "computed_for eng s3 p3 (states s3 ! 2)"
    and keep3: "\<forall>q. computed_for eng s2 q (states s2 ! 1) \<longrightarrow> computed_for eng s3 q (states s3 ! 1)"
    and g3: "calls_get_results s3 = 3" and h3: "length (heap s3) = 3"
    by (auto simp: py_index_def numeral_2_eq_2)
  from keep3 a2 have b3: "computed_for eng s3 p2 (states s3 ! 1)"
    by blast
  have m4: "first_index (\<lambda>k. k = Some p4) (map params (states s3)) = None"
    using k3 dist by simp
  from compute_None_miss_step [OF r4 m4] l3 g3 h3 n3
  have a4: "computed_for eng s4 p4 (states s4 ! 0)"
    and keep4: "\<forall>q. computed_for eng s3 q (states s3 ! 1) \<longrightarrow> computed_for eng s4 q (states s4 ! 1)"
      "\<forall>q. computed_for eng s3 q (states s3 ! 2) \<longrightarrow> computed_for eng s4 q (states s4 ! 2)"
    and g4: "calls_get_results s4 = 4" and h4: "length (heap s4) = 4"
    by (auto simp: py_index_def numeral_2_eq_2)
  from keep4 b3 a3 have b4: "computed_for eng s4 p2 (states s4 ! 1)"
    "computed_for eng s4 p3 (states s4 ! 2)"
    by blast+
  \<comment> \<open>the first values again\<close>
  let ?s5 = "snd (snd (compute eng d5 p1 s4))"
  have none: "first_index (\<lambda>sl. params sl = Some p1) (states s4) = None"
    using first_index_map [of "\<lambda>k. k = Some p1" params "states s4"] k4 dist
    by auto
  from k4 have ne: "states s4 \<noteq> []" by auto
  from compute_miss_fixed(2) [OF none ne, of eng d5] c4
  have c5: "calls_set_params ?s5 = 5"
    by simp
  have again: "calls_get_results ?s5 = 5
           \<and> map params (states ?s5) = [Some p4, Some p1, Some p3]
           \<and> computed_for eng ?s5 p1 (states ?s5 ! 1)
           \<and> length (heap ?s5) = 5"
    if ok: "fst (compute eng d5 p1 s4) = None"
  proof -
    from ok have r5: "compute eng d5 p1 s4 = (None, fst (snd (compute eng d5 p1 s4)), ?s5)"
      by (metis prod.collapse)
    have m5: "first_index (\<lambda>k. k = Some p1) (map params (states s4)) = None"
      using k4 dist by auto
    from compute_None_step [OF r5] k4 l4 dist
    have k5: "map params (states ?s5) = [Some p4, Some p1, Some p3]"
      by (auto simp: py_index_def)
    from compute_None_miss_step [OF r5 m5] l4 g4 h4 n4
    have "computed_for eng ?s5 p1 (states ?s5 ! 1)"
      and "calls_get_results ?s5 = 5" and "length (heap ?s5) = 5"
      by (auto simp: py_index_def)
    with k5 show ?thesis by simp
  qed
  from n4 k4 a4 b4 c4 g4 h4 c5 again miss_victim [where eng = eng] show ?thesis
    by blast
qed


theorem eviction_of_oldest_witness:
  "(initialise cfg0 :: error + (pydict, pydict) state) = Inr st0
   \<and> distinct [pA, pB, pC, pD]
   \<and> compute_seq eng0 [(None, pA), (None, pB), (None, pC), (None, pD)] st0
        = (None, snd (compute_seq eng0 run_ABCD st0))
   \<and> fst (compute eng0 None pA (snd (compute_seq eng0 run_ABCD st0))) = None
   \<and> length (states (snd (compute_seq eng0 run_ABCD st0))) = 3
   \<and> map params (states (snd (compute_seq eng0 run_ABCD st0))) = [Some pD, Some pB, Some pC]
   \<and> computed_for eng0 (snd (compute_seq eng0 run_ABCD st0)) pD
        (states (snd (compute_seq eng0 run_ABCD st0)) ! 0)
   \<and> computed_for eng0 (snd (compute_seq eng0 run_ABCD st0)) pB
        (states (snd (compute_seq eng0 run_ABCD st0)) ! 1)
   \<and> computed_for eng0 (snd (compute_seq eng0 run_ABCD st0)) pC
        (states (snd (compute_seq eng0 run_ABCD st0)) ! 2)
   \<and> calls_set_params (snd (compute_seq eng0 run_ABCD st0)) = 4
   \<and> calls_get_results (snd (compute_seq eng0 run_ABCD st0)) = 4
   \<and> length (heap (snd (compute_seq eng0 run_ABCD st0))) = 4
   \<and> calls_set_params (snd (snd (compute eng0 None pA (snd (compute_seq eng0 run_ABCD st0))))) = 5
   \<and> calls_get_results (snd (snd (compute eng0 None pA (snd (compute_seq eng0 run_ABCD st0))))) = 5
   \<and> computed_for eng0 (snd (snd (compute eng0 None pA (snd (compute_seq eng0 run_ABCD st0))))) pA
        (states (snd (snd (compute eng0 None pA (snd (compute_seq eng0 run_ABCD st0))))) ! 1)"
proof -
  have d: "pA \<noteq> pB" "pA \<noteq> pC" "pA \<noteq> pD" "pB \<noteq> pC" "pB \<noteq> pD" "pC \<noteq> pD"
    using distinct_ABCD by auto
  have "fst (compute_seq eng0 run_ABCD st0) = None"
    by (simp add: run_ABCD_def unfold_calls unfold_fixtures d d [symmetric])
  then have h: "compute_seq eng0 [(None, pA), (None, pB), (None, pC), (None, pD)] st0
                  = (None, snd (compute_seq eng0 run_ABCD st0))"
    unfolding run_ABCD_def by (metis prod.collapse)
  have ok: "fst (compute eng0 None pA (snd (compute_seq eng0 run_ABCD st0))) = None"
    by (simp add: run_ABCD_def unfold_calls unfold_fixtures d d [symmetric])
  from eviction_of_oldest [OF initialise_cfg0 distinct_ABCD h, of None] ok
  have "length (states (snd (compute_seq eng0 run_ABCD st0))) = 3
   \<and> map params (states (snd (compute_seq eng0 run_ABCD st0))) = [Some pD, Some pB, Some pC]
   \<and> computed_for eng0 (snd (compute_seq eng0 run_ABCD st0)) pD
        (states (snd (compute_seq eng0 run_ABCD st0)) ! 0)
   \<and> computed_for eng0 (snd (compute_seq eng0 run_ABCD st0)) pB
        (states (snd (compute_seq eng0 run_ABCD st0)) ! 1)
   \<and> computed_for eng0 (snd (compute_seq eng0 run_ABCD st0)) pC
        (states (snd (compute_seq eng0 run_ABCD st0)) ! 2)
   \<and> calls_set_params (snd (compute_seq eng0 run_ABCD st0)) = 4
   \<and> calls_get_results (snd (compute_seq eng0 run_ABCD st0)) = 4
   \<and> length (heap (snd (compute_seq eng0 run_ABCD st0))) = 4
   \<and> calls_set_params (snd (snd (compute eng0 None pA (snd (compute_seq eng0 run_ABCD st0))))) = 5
   \<and> calls_get_results (snd (snd (compute eng0 None pA (snd (compute_seq eng0 run_ABCD st0))))) = 5
   \<and> computed_for eng0 (snd (snd (compute eng0 None pA (snd (compute_seq eng0 run_ABCD st0))))) pA
        (states (snd (snd (compute eng0 None pA (snd (compute_seq eng0 run_ABCD st0))))) ! 1)"
    by blast
  with initialise_cfg0 distinct_ABCD h ok show ?thesis
    by blast
qed

subsection \<open>A computation that fails\<close>

lemma st_full_eval:
  "st_full = \<lparr>states = [\<lparr>CAMBparams = Some pA, CAMBresults = Some pA, powers = Some 0,
                            params = Some pA, derived = None, last_py = - 1\<rparr>,
                          \<lparr>CAMBparams = Some pB, CAMBresults = Some pB, powers = Some 1,
                            params = Some pB, derived = None, last_py = 0\<rparr>,
                          \<lparr>CAMBparams = Some pC, CAMBresults = Some pC, powers = Some 2,
                            params = Some pC, derived = None, last_py = 1\<rparr>],
               fixed = pC, precision = Map.empty, self_derived = [''x''],
               sampled_params = [''x''], heap = [raw0, raw0, raw0],
               calls_set_params = 3, calls_get_results = 3\<rparr>"
  by (simp add: st_full_def eng_fail_def unfold_calls unfold_fixtures
        pA_def pB_def pC_def px_eq)


lemma st_failed_eval:
  "st_failed = \<lparr>states = [\<lparr>CAMBparams = Some pD, CAMBresults = Some pA, powers = Some 0,
                            params = Some pD, derived = None, last_py = - 1\<rparr>,
                          \<lparr>CAMBparams = Some pB, CAMBresults = Some pB, powers = Some 1,
                            params = Some pB, derived = None, last_py = 0\<rparr>,
                          \<lparr>CAMBparams = Some pC, CAMBresults = Some pC, powers = Some 2,
                            params = Some pC, derived = None, last_py = 1\<rparr>],
               fixed = pD, precision = Map.empty, self_derived = [''x''],
               sampled_params = [''x''], heap = [raw0, raw0, raw0],
               calls_set_params = 4, calls_get_results = 4\<rparr>"
  unfolding st_failed_def st_full_eval
  by (simp add: eng_fail_def unfold_calls unfold_fixtures pA_def pB_def pC_def pD_def px_eq)

text \<open>
  C5. The engine fails in \<^verbatim>\<open>get_results\<close> for the values \<open>pD\<close>, on a cache holding \<open>pA\<close>, \<open>pB\<close>
  and \<open>pC\<close>. The call raises, but \<^verbatim>\<open>set\<close> had already written \<open>pD\<close> as the key of slot 0,
  whose results and spectra are still those computed for \<open>pA\<close>. The next call with \<open>pD\<close>
  finds that slot, returns normally without calling the engine, and \<^verbatim>\<open>current_state\<close>
  then hands out the slot with key \<open>pD\<close> and the results of \<open>pA\<close>.
\<close>

theorem failed_compute_leaves_key:
  "fst (compute eng_fail None pD st_full) = Some (CAMBError ''get_results'')
   \<and> params (states st_full ! 0) = Some pA
   \<and> params (states st_failed ! 0) = Some pD
   \<and> CAMBresults (states st_failed ! 0) = Some pA
   \<and> powers (states st_failed ! 0) = powers (states st_full ! 0)
   \<and> calls_get_results st_failed = 4
   \<and> fst (compute eng_fail None pD st_failed) = None
   \<and> calls_set_params (snd (snd (compute eng_fail None pD st_failed))) = calls_set_params st_failed
   \<and> calls_get_results (snd (snd (compute eng_fail None pD st_failed))) = 4
   \<and> current_state (snd (snd (compute eng_fail None pD st_failed)))
        = Inr \<lparr>CAMBparams = Some pD, CAMBresults = Some pA, powers = Some 0,
                params = Some pD, derived = None, last_py = 1\<rparr>"
proof -
  have a: "fst (compute eng_fail None pD st_full) = Some (CAMBError ''get_results'')"
    unfolding st_full_eval
    by (simp add: eng_fail_def unfold_calls unfold_fixtures pA_def pB_def pC_def pD_def px_eq)
  have b: "fst (compute eng_fail None pD st_failed) = None"
    "calls_set_params (snd (snd (compute eng_fail None pD st_failed))) = 4"
    "calls_get_results (snd (snd (compute eng_fail None pD st_failed))) = 4"
    "current_state (snd (snd (compute eng_fail None pD st_failed)))
        = Inr \<lparr>CAMBparams = Some pD, CAMBresults = Some pA, powers = Some 0,
                params = Some pD, derived = None, last_py = 1\<rparr>"
    unfolding st_failed_eval
    by (simp_all add: unfold_calls)
  have c: "params (states st_full ! 0) = Some pA" "powers (states st_full ! 0) = Some 0"
    unfolding st_full_eval by simp_all
  have d: "params (states st_failed ! 0) = Some pD" "CAMBresults (states st_failed ! 0) = Some pA"
    "powers (states st_failed ! 0) = Some 0" "calls_get_results st_failed = 4"
    "calls_set_params st_failed = 4"
    unfolding st_failed_eval by simp_all
  from a b c d show ?thesis by simp
qed

subsection \<open>Spectra\<close>

lemma length_scale_column [simp]: "length (scale_column T c a) = length a"
  by (simp add: scale_column_def)

lemma nth_scale_column:
  "l < length a \<Longrightarrow>
     scale_column T c a ! l =
       (if 2 \<le> l then (a ! l)[c := a ! l ! c / ell_factor l * (T * 1000000)\<^sup>2] else a ! l)"
  by (simp add: scale_column_def nth_enumerate_eq)

lemma scale_view_fresh:
  "scale_view T \<lparr>base = length h, col = c\<rparr> (h @ [a]) = h @ [scale_column T c a]"
  by (simp add: scale_view_def)

lemma nth_scaled:
  assumes "l < length a" and "4 \<le> length (a ! l)"
  shows "scaled T a ! l ! 0 = (if 2 \<le> l then physical T l (a ! l ! 0) else a ! l ! 0)"
    and "scaled T a ! l ! 3 = (if 2 \<le> l then physical T l (a ! l ! 3) else a ! l ! 3)"
    and "scaled T a ! l ! 1 = (if 2 \<le> l then physical T l (a ! l ! 1) else a ! l ! 1)"
    and "scaled T a ! l ! 2 = (if 2 \<le> l then physical T l (a ! l ! 2) else a ! l ! 2)"
proof -
  from assms(2) have len: "0 < length (a ! l)" "1 < length (a ! l)" "2 < length (a ! l)"
    "3 < length (a ! l)"
    by linarith+
  show "scaled T a ! l ! 0 = (if 2 \<le> l then physical T l (a ! l ! 0) else a ! l ! 0)"
    and "scaled T a ! l ! 3 = (if 2 \<le> l then physical T l (a ! l ! 3) else a ! l ! 3)"
    and "scaled T a ! l ! 1 = (if 2 \<le> l then physical T l (a ! l ! 1) else a ! l ! 1)"
    and "scaled T a ! l ! 2 = (if 2 \<le> l then physical T l (a ! l ! 2) else a ! l ! 2)"
    using assms(1) len
    by (simp_all add: scaled_def nth_scale_column physical_def ell_factor_def)
qed

lemma get_cl_Inr:
  assumes "get_cl eng s = (Inr c, s')"
  shows "\<exists>cur a cp. current_state s = Inr cur \<and> powers cur = Some a \<and> CAMBparams cur = Some cp
           \<and> (\<forall>row \<in> set (heap s ! a). 4 \<le> length row)
           \<and> c = \<lparr>ell = [0..<length (heap s ! a)],
                   tt = \<lparr>base = length (heap s), col = 0\<rparr>,
                   te = \<lparr>base = length (heap s), col = 3\<rparr>,
                   ee = \<lparr>base = length (heap s), col = 1\<rparr>,
                   bb = \<lparr>base = length (heap s), col = 2\<rparr>\<rparr>
           \<and> s' = s\<lparr>heap := heap s @ [scaled (TCMB eng cp) (heap s ! a)]\<rparr>"
  using assms
  by (auto simp: get_cl_def Let_def scaled_def scale_view_fresh not_less
           split: sum.splits option.splits if_splits)

lemma get_cl_frame:
  "states (snd (get_cl eng s)) = states s
   \<and> take (length (heap s)) (heap (snd (get_cl eng s))) = heap s
   \<and> fixed (snd (get_cl eng s)) = fixed s
   \<and> precision (snd (get_cl eng s)) = precision s
   \<and> self_derived (snd (get_cl eng s)) = self_derived s
   \<and> calls_set_params (snd (get_cl eng s)) = calls_set_params s
   \<and> calls_get_results (snd (get_cl eng s)) = calls_get_results s"
  by (simp add: get_cl_def Let_def scale_view_fresh split: sum.splits option.splits)


lemma length_scaled [simp]: "length (scaled T a) = length a"
  by (simp add: scaled_def)

lemma read_view_fresh:
  "read_view (h @ [a]) \<lparr>base = length h, col = c\<rparr> = map (\<lambda>row. row ! c) a"
  by (simp add: read_view_def)

text \<open>
  C6. When \<^verbatim>\<open>get_cl\<close> returns, the current slot has spectra and a parameter object, the
  multipoles returned are \<open>0, \<dots>, L - 1\<close>, and at every multipole from 2 on each of the four
  channels is the raw value of its column (0, 3, 1 and 2 for \<open>tt\<close>, \<open>te\<close>, \<open>ee\<close> and \<open>bb\<close>)
  divided by \<open>ell (ell + 1) / (2 pi)\<close> and multiplied by \<open>(T 10\<^sup>6)\<^sup>2\<close>, with \<open>T\<close> the \<^verbatim>\<open>TCMB\<close> of
  the slot's parameter object; at multipoles 0 and 1 it is the raw value. Floats are real
  numbers here, so the equalities are exact.
\<close>

theorem get_cl_normalises:
  assumes "get_cl eng s = (Inr c, s')"
  shows "\<exists>cur a cp. current_state s = Inr cur \<and> powers cur = Some a \<and> CAMBparams cur = Some cp
           \<and> ell c = [0..<length (heap s ! a)]
           \<and> (\<forall>l < length (heap s ! a).
                 read_view (heap s') (tt c) ! l
                   = (if 2 \<le> l then physical (TCMB eng cp) l (heap s ! a ! l ! 0)
                      else heap s ! a ! l ! 0)
               \<and> read_view (heap s') (te c) ! l
                   = (if 2 \<le> l then physical (TCMB eng cp) l (heap s ! a ! l ! 3)
                      else heap s ! a ! l ! 3)
               \<and> read_view (heap s') (ee c) ! l
                   = (if 2 \<le> l then physical (TCMB eng cp) l (heap s ! a ! l ! 1)
                      else heap s ! a ! l ! 1)
               \<and> read_view (heap s') (bb c) ! l
                   = (if 2 \<le> l then physical (TCMB eng cp) l (heap s ! a ! l ! 2)
                      else heap s ! a ! l ! 2))"
proof -
  from get_cl_Inr [OF assms] obtain cur a cp where
    cur: "current_state s = Inr cur" "powers cur = Some a" "CAMBparams cur = Some cp" and
    wide: "\<forall>row \<in> set (heap s ! a). 4 \<le> length row" and
    c: "c = \<lparr>ell = [0..<length (heap s ! a)],
              tt = \<lparr>base = length (heap s), col = 0\<rparr>,
              te = \<lparr>base = length (heap s), col = 3\<rparr>,
              ee = \<lparr>base = length (heap s), col = 1\<rparr>,
              bb = \<lparr>base = length (heap s), col = 2\<rparr>\<rparr>" and
    s': "s' = s\<lparr>heap := heap s @ [scaled (TCMB eng cp) (heap s ! a)]\<rparr>"
    by blast
  have "read_view (heap s') (tt c) ! l
          = (if 2 \<le> l then physical (TCMB eng cp) l (heap s ! a ! l ! 0) else heap s ! a ! l ! 0)
      \<and> read_view (heap s') (te c) ! l
          = (if 2 \<le> l then physical (TCMB eng cp) l (heap s ! a ! l ! 3) else heap s ! a ! l ! 3)
      \<and> read_view (heap s') (ee c) ! l
          = (if 2 \<le> l then physical (TCMB eng cp) l (heap s ! a ! l ! 1) else heap s ! a ! l ! 1)
      \<and> read_view (heap s') (bb c) ! l
          = (if 2 \<le> l then physical (TCMB eng cp) l (heap s ! a ! l ! 2) else heap s ! a ! l ! 2)"
    if l: "l < length (heap s ! a)" for l
  proof -
    from l wide have w: "4 \<le> length (heap s ! a ! l)"
      by simp
    show ?thesis
      using l nth_scaled [OF l w, of "TCMB eng cp"]
      by (simp add: c s' read_view_fresh)
  qed
  with cur c show ?thesis
    by (intro exI [of _ cur] exI [of _ a] exI [of _ cp]) simp
qed

lemma st1_eval:
  "st1 = \<lparr>states = [\<lparr>CAMBparams = Some pA, CAMBresults = Some pA, powers = Some 0,
                       params = Some pA, derived = None, last_py = 1\<rparr>, empty_slot, empty_slot],
          fixed = pA, precision = Map.empty, self_derived = [''x''],
          sampled_params = [''x''], heap = [raw0],
          calls_set_params = 1, calls_get_results = 1\<rparr>"
  by (simp add: st1_def unfold_calls unfold_fixtures)

lemma get_cl_st1: "get_cl eng0 st1 = (Inr cl1, snd (get_cl eng0 st1))"
  unfolding st1_eval
  by (simp add: get_cl_def unfold_calls unfold_fixtures cl1_def raw0_def Let_def)

theorem get_cl_normalises_witness:
  "get_cl eng0 st1 = (Inr cl1, snd (get_cl eng0 st1))
   \<and> ell cl1 = [0, 1, 2]
   \<and> read_view (heap (snd (get_cl eng0 st1))) (tt cl1) ! 0 = 5
   \<and> read_view (heap (snd (get_cl eng0 st1))) (tt cl1) ! 1 = 9
   \<and> read_view (heap (snd (get_cl eng0 st1))) (tt cl1) ! 2
        = 1 / (2 * 3 / (2 * pi)) * (27255 / 10000 * 1000000)\<^sup>2"
proof -
  have cur: "current_state st1 = Inr \<lparr>CAMBparams = Some pA, CAMBresults = Some pA,
      powers = Some 0, params = Some pA, derived = None, last_py = 1\<rparr>"
    unfolding st1_eval by (simp add: unfold_calls unfold_fixtures)
  have raw: "heap st1 ! 0 = raw0"
    unfolding st1_eval by simp
  from get_cl_normalises [OF get_cl_st1] cur raw
  have all: "\<forall>l < length raw0.
                 read_view (heap (snd (get_cl eng0 st1))) (tt cl1) ! l
                   = (if 2 \<le> l then physical (TCMB eng0 pA) l (raw0 ! l ! 0) else raw0 ! l ! 0)"
    by auto
  have "read_view (heap (snd (get_cl eng0 st1))) (tt cl1) ! 0 = 5"
    "read_view (heap (snd (get_cl eng0 st1))) (tt cl1) ! 1 = 9"
    "read_view (heap (snd (get_cl eng0 st1))) (tt cl1) ! 2
        = 1 / (2 * 3 / (2 * pi)) * (27255 / 10000 * 1000000)\<^sup>2"
    using all by (simp_all add: raw0_def physical_def eng0_def)
  with get_cl_st1 show ?thesis
    by (simp add: cl1_def)
qed

subsection \<open>The cached spectra are not written\<close>

lemma get_cl_times_frame:
  "states (get_cl_times n eng s) = states s
   \<and> take (length (heap s)) (heap (get_cl_times n eng s)) = heap s
   \<and> fixed (get_cl_times n eng s) = fixed s
   \<and> calls_set_params (get_cl_times n eng s) = calls_set_params s
   \<and> calls_get_results (get_cl_times n eng s) = calls_get_results s"
proof (induction n arbitrary: s)
  case 0
  show ?case by simp
next
  case (Suc n)
  let ?s1 = "snd (get_cl eng s)"
  note f = get_cl_frame [of eng s]
  from f have t: "take (length (heap s)) (heap ?s1) = heap s"
    by blast
  then have "length (take (length (heap s)) (heap ?s1)) = length (heap s)"
    by simp
  then have le: "length (heap s) \<le> length (heap ?s1)"
    by simp
  from Suc.IH [of ?s1] have "take (length (heap ?s1)) (heap (get_cl_times n eng ?s1)) = heap ?s1"
    by blast
  then have "take (length (heap s)) (take (length (heap ?s1)) (heap (get_cl_times n eng ?s1)))
               = take (length (heap s)) (heap ?s1)"
    by simp
  with le t have "take (length (heap s)) (heap (get_cl_times n eng ?s1)) = heap s"
    by (simp add: min_absorb1)
  with Suc.IH [of ?s1] f show ?case
    by simp
qed

lemma current_state_cong:
  assumes "states s2 = states s"
  shows "current_state s2 = current_state s"
  unfolding current_state_def current_index_def lasts_of_def assms ..

lemma current_state_index:
  "current_state s = Inr cur \<Longrightarrow> \<exists>i < length (states s). cur = states s ! i"
  by (auto simp: current_state_def current_index_def lasts_of_def
           split: sum.splits dest!: py_index_Inr)

lemma get_cl_again:
  assumes ok: "refs_ok s" and c: "get_cl eng s = (Inr c, s')"
    and st: "states s2 = states s" and hp: "take (length (heap s)) (heap s2) = heap s"
  shows "\<exists>c'. fst (get_cl eng s2) = Inr c' \<and> ell c' = ell c
           \<and> read_view (heap (snd (get_cl eng s2))) (tt c') = read_view (heap s') (tt c)
           \<and> read_view (heap (snd (get_cl eng s2))) (te c') = read_view (heap s') (te c)
           \<and> read_view (heap (snd (get_cl eng s2))) (ee c') = read_view (heap s') (ee c)
           \<and> read_view (heap (snd (get_cl eng s2))) (bb c') = read_view (heap s') (bb c)"
proof -
  from get_cl_Inr [OF c] obtain cur a cp where
    cur: "current_state s = Inr cur" "powers cur = Some a" "CAMBparams cur = Some cp" and
    wide: "\<forall>row \<in> set (heap s ! a). 4 \<le> length row" and
    cc: "c = \<lparr>ell = [0..<length (heap s ! a)],
              tt = \<lparr>base = length (heap s), col = 0\<rparr>,
              te = \<lparr>base = length (heap s), col = 3\<rparr>,
              ee = \<lparr>base = length (heap s), col = 1\<rparr>,
              bb = \<lparr>base = length (heap s), col = 2\<rparr>\<rparr>" and
    s': "s' = s\<lparr>heap := heap s @ [scaled (TCMB eng cp) (heap s ! a)]\<rparr>"
    by blast
  from current_state_index [OF cur(1)] cur(2) ok have a: "a < length (heap s)"
    by (auto simp: refs_ok_def)
  with hp have same: "heap s2 ! a = heap s ! a"
    by (metis nth_take)
  have cur2: "current_state s2 = Inr cur"
    using current_state_cong [OF st] cur(1) by simp
  show ?thesis
    using cur2 cur(2,3) wide same
    by (simp add: get_cl_def Let_def cc s' scale_view_fresh read_view_fresh scaled_def not_less)
qed


lemma needs_heap [simp]: "heap (snd (needs kvs s)) = heap s"
  by (induction kvs s rule: needs.induct) auto

lemma make_current_refs_ok: "refs_ok s \<Longrightarrow> refs_ok (make_current m i s)"
  by (simp add: refs_ok_def make_current_nth)

lemma compute_miss_refs_ok:
  assumes "compute_miss eng dv p i s = (r, dv', s1)" and "refs_ok s"
  shows "refs_ok s1"
  using assms
  by (cases "i < length (states s)")
     (auto simp: compute_miss_def set_py_def get_derived_def Let_def refs_ok_def
        nth_list_update list_update_beyond less_Suc_eq
        split: sum.splits option.splits prod.splits if_splits)

lemma compute_refs_ok:
  assumes "compute eng dv p s = (r, dv', s')" and "refs_ok s"
  shows "refs_ok s'"
  using assms(1)
proof (cases rule: compute_cases)
  case same
  with assms(2) show ?thesis by simp
next
  case (hit i m)
  with assms(2) show ?thesis by (simp add: make_current_refs_ok)
next
  case (failed i mn e)
  from compute_miss_refs_ok [OF failed(4) assms(2)] show ?thesis .
next
  case (miss i m mn s1)
  from compute_miss_refs_ok [OF miss(4) assms(2)] miss(6) show ?thesis
    by (simp add: make_current_refs_ok)
qed

lemma reachable_refs_ok: "reachable s \<Longrightarrow> refs_ok s"
proof (induction rule: reachable.induct)
  case (init c s)
  then show ?case
    by (auto simp: initialise_def Let_def refs_ok_def numeral_3_eq_3 empty_slot_def
          nth_Cons split: if_splits nat.splits)
next
  case (after_compute s eng dv p r dv' s')
  then show ?case by (simp add: compute_refs_ok)
next
  case (after_needs s kvs r s')
  then have "states s' = states s" "heap s' = heap s"
    by (metis needs_states snd_conv, metis needs_heap snd_conv)
  with after_needs show ?case by (simp add: refs_ok_def)
next
  case (after_get_cl s eng rc s')
  then have s': "s' = snd (get_cl eng s)" by simp
  from get_cl_frame [of eng s] have st: "states s' = states s"
    and t: "take (length (heap s)) (heap s') = heap s"
    unfolding s' by blast+
  from t have "length (take (length (heap s)) (heap s')) = length (heap s)"
    by simp
  then have "length (heap s) \<le> length (heap s')"
    by simp
  with after_get_cl st show ?case
    by (fastforce simp: refs_ok_def)
qed

text \<open>
  C7. \<^verbatim>\<open>get_cl\<close> writes only to the copy it makes. However often it is called, and whether
  it returns or raises, the slots are as they were and every array that was in the store
  before is still there unchanged, so the slot's raw spectra are what the engine returned.
  The views it hands out are based on the new copy. In a state the component can reach,
  if one call returned then every later call returns the same multipoles and the same four
  channels.
\<close>

theorem get_cl_leaves_cache:
  "states (get_cl_times n eng s) = states s
   \<and> take (length (heap s)) (heap (get_cl_times n eng s)) = heap s
   \<and> (\<forall>a < length (heap s). heap (get_cl_times n eng s) ! a = heap s ! a)
   \<and> (\<forall>c s'. get_cl eng s = (Inr c, s') \<longrightarrow>
          base (tt c) = length (heap s) \<and> base (te c) = length (heap s)
        \<and> base (ee c) = length (heap s) \<and> base (bb c) = length (heap s)
        \<and> (reachable s \<longrightarrow>
             (\<exists>c'. fst (get_cl eng (get_cl_times n eng s)) = Inr c' \<and> ell c' = ell c
                \<and> read_view (heap (snd (get_cl eng (get_cl_times n eng s)))) (tt c')
                     = read_view (heap s') (tt c)
                \<and> read_view (heap (snd (get_cl eng (get_cl_times n eng s)))) (te c')
                     = read_view (heap s') (te c)
                \<and> read_view (heap (snd (get_cl eng (get_cl_times n eng s)))) (ee c')
                     = read_view (heap s') (ee c)
                \<and> read_view (heap (snd (get_cl eng (get_cl_times n eng s)))) (bb c')
                     = read_view (heap s') (bb c))))"
proof -
  from get_cl_times_frame [of n eng s] have
    st: "states (get_cl_times n eng s) = states s" and
    t: "take (length (heap s)) (heap (get_cl_times n eng s)) = heap s"
    by blast+
  have nth: "heap (get_cl_times n eng s) ! a = heap s ! a" if "a < length (heap s)" for a
    using t that by (metis nth_take)
  have views: "base (tt c) = length (heap s) \<and> base (te c) = length (heap s)
        \<and> base (ee c) = length (heap s) \<and> base (bb c) = length (heap s)"
    if "get_cl eng s = (Inr c, s')" for c s'
    using get_cl_Inr [OF that] by auto
  have again: "\<exists>c'. fst (get_cl eng (get_cl_times n eng s)) = Inr c' \<and> ell c' = ell c
                \<and> read_view (heap (snd (get_cl eng (get_cl_times n eng s)))) (tt c')
                     = read_view (heap s') (tt c)
                \<and> read_view (heap (snd (get_cl eng (get_cl_times n eng s)))) (te c')
                     = read_view (heap s') (te c)
                \<and> read_view (heap (snd (get_cl eng (get_cl_times n eng s)))) (ee c')
                     = read_view (heap s') (ee c)
                \<and> read_view (heap (snd (get_cl eng (get_cl_times n eng s)))) (bb c')
                     = read_view (heap s') (bb c)"
    if "get_cl eng s = (Inr c, s')" "reachable s" for c s'
    using get_cl_again [OF reachable_refs_ok [OF that(2)] that(1) st t] .
  from st t nth views again show ?thesis
    by blast
qed

lemma reachable_st1: "reachable st1"
proof -
  have "reachable st0"
    using initialise_cfg0 by (rule reachable.init)
  moreover have "compute eng0 None pA st0
      = (fst (compute eng0 None pA st0), fst (snd (compute eng0 None pA st0)), st1)"
    by (simp add: st1_def)
  ultimately show ?thesis
    by (rule reachable.after_compute)
qed

theorem get_cl_leaves_cache_witness:
  "reachable st1 \<and> get_cl eng0 st1 = (Inr cl1, snd (get_cl eng0 st1))
   \<and> states (get_cl_times 2 eng0 st1) = states st1
   \<and> heap st1 = [raw0]
   \<and> heap (get_cl_times 2 eng0 st1) ! 0 = raw0
   \<and> (\<exists>c'. fst (get_cl eng0 (get_cl_times 2 eng0 st1)) = Inr c'
         \<and> read_view (heap (snd (get_cl eng0 (get_cl_times 2 eng0 st1)))) (tt c')
              = read_view (heap (snd (get_cl eng0 st1))) (tt cl1))"
proof -
  have h: "heap st1 = [raw0]"
    unfolding st1_eval by simp
  from get_cl_leaves_cache [of 2 eng0 st1] have
    a: "states (get_cl_times 2 eng0 st1) = states st1" and
    b: "\<forall>a < length (heap st1). heap (get_cl_times 2 eng0 st1) ! a = heap st1 ! a" and
    c: "\<forall>c s'. get_cl eng0 st1 = (Inr c, s') \<longrightarrow>
          (reachable st1 \<longrightarrow>
             (\<exists>c'. fst (get_cl eng0 (get_cl_times 2 eng0 st1)) = Inr c'
                \<and> read_view (heap (snd (get_cl eng0 (get_cl_times 2 eng0 st1)))) (tt c')
                     = read_view (heap s') (tt c)))"
    by blast+
  from b h have b': "heap (get_cl_times 2 eng0 st1) ! 0 = raw0"
    by simp
  from c get_cl_st1 reachable_st1 have
    "\<exists>c'. fst (get_cl eng0 (get_cl_times 2 eng0 st1)) = Inr c'
         \<and> read_view (heap (snd (get_cl eng0 (get_cl_times 2 eng0 st1)))) (tt c')
              = read_view (heap (snd (get_cl eng0 st1))) (tt cl1)"
    by blast
  with reachable_st1 get_cl_st1 a h b' show ?thesis
    by blast
qed

subsection \<open>Derived parameters on a hit\<close>

lemma st_stale_eval:
  "st_stale = \<lparr>states = [\<lparr>CAMBparams = Some pD, CAMBresults = Some pD, powers = Some 3,
                            params = Some pD, derived = Some [PyNum 1], last_py = 1\<rparr>,
                          \<lparr>CAMBparams = Some pB, CAMBresults = Some pB, powers = Some 1,
                            params = Some pB, derived = Some [PyNum 2], last_py = - 1\<rparr>,
                          \<lparr>CAMBparams = Some pC, CAMBresults = Some pC, powers = Some 2,
                            params = Some pC, derived = Some [PyNum 3], last_py = 0\<rparr>],
               fixed = pD, precision = Map.empty, self_derived = [''x''],
               sampled_params = [''x''], heap = [raw0, raw0, raw0, raw0],
               calls_set_params = 4, calls_get_results = 4\<rparr>"
  by (simp add: st_stale_def run_ABCd_def unfold_calls unfold_fixtures
        pA_def pB_def pC_def pD_def px_eq)

text \<open>
  C1. A second call with the same values does not always hand back the derived values of
  these values. The hit branch reads the slot's \<^verbatim>\<open>"derived"\<close> entry, but a miss writes that
  entry only when derived parameters were asked for. After \<^verbatim>\<open>compute(**pA)\<close> on the fresh
  state, \<^verbatim>\<open>compute(derived={}, **pA)\<close> finds the slot and raises \<^verbatim>\<open>TypeError\<close>. After three
  calls that ask for derived parameters and \<^verbatim>\<open>compute(**pD)\<close>, which overwrites the slot of
  \<open>pA\<close>, \<^verbatim>\<open>compute(derived={}, **pD)\<close> finds that slot and returns the derived value 1 of \<open>pA\<close>,
  where the engine gives 4 for \<open>pD\<close>.
\<close>

theorem hit_reads_derived_never_computed:
  "fst (compute eng0 None pA st0) = None
   \<and> compute eng0 (Some Map.empty) pA st1 = (Some TypeError, Some Map.empty, st1)
   \<and> fst (compute_seq eng0 run_ABCd st0) = None
   \<and> params (states st_stale ! 0) = Some pD
   \<and> derived (states st_stale ! 0) = Some [PyNum 1]
   \<and> fst (compute eng0 (Some Map.empty) pD st_stale) = None
   \<and> calls_set_params (snd (snd (compute eng0 (Some Map.empty) pD st_stale)))
        = calls_set_params st_stale
   \<and> fst (snd (compute eng0 (Some Map.empty) pD st_stale)) = Some [''x'' \<mapsto> PyNum 1]
   \<and> fst (snd (compute eng0 (Some Map.empty) pD st0)) = Some [''x'' \<mapsto> PyNum 4]"
proof -
  have a: "fst (compute eng0 None pA st0) = None"
    by (simp add: unfold_calls unfold_fixtures)
  have b: "compute eng0 (Some Map.empty) pA st1 = (Some TypeError, Some Map.empty, st1)"
    unfolding st1_eval by (simp add: unfold_calls)
  have c: "fst (compute_seq eng0 run_ABCd st0) = None"
    by (simp add: run_ABCd_def unfold_calls unfold_fixtures pA_def pB_def pC_def pD_def px_eq)
  have d: "params (states st_stale ! 0) = Some pD" "derived (states st_stale ! 0) = Some [PyNum 1]"
    unfolding st_stale_eval by simp_all
  have e: "fst (compute eng0 (Some Map.empty) pD st_stale) = None"
    "calls_set_params (snd (snd (compute eng0 (Some Map.empty) pD st_stale)))
        = calls_set_params st_stale"
    "fst (snd (compute eng0 (Some Map.empty) pD st_stale)) = Some [''x'' \<mapsto> PyNum 1]"
    unfolding st_stale_eval by (simp_all add: unfold_calls py_dict_def)
  have f: "fst (snd (compute eng0 (Some Map.empty) pD st0)) = Some [''x'' \<mapsto> PyNum 4]"
    by (simp add: pD_def unfold_calls unfold_fixtures)
  from a b c d e f show ?thesis by simp
qed

end
